theory Spec2Isabelle
  imports Complex_Main "HOL-Library.AList" "HOL-Library.Multiset"
begin

section \<open>Python values shared by the module\<close>

text \<open>
  The module \<^verbatim>\<open>utils/model_performance_analysis.py\<close> works on nested dictionaries
  \<^verbatim>\<open>{<language>: {'true_labels': [...], 'pred_labels': [...], 'pred_probs': [...]}}\<close>.
  Labels are Python integers, probabilities are floating-point numbers; the embedding
  reads a float as the real number it stands for. The rounding of arithmetic results is
  not modelled; the conversion of the confidence threshold to single precision, which
  decides a comparison, is.

  A raised exception is the left summand of the result. An assertion error carries the
  constant head of its message (the formatted lengths that follow it are left out).
\<close>

datatype error =
    AssertionError string
  | ValueError string
  | KeyError string
  | IndexError
  | TypeError string
  | RecursionError

text \<open>The inner dictionary of one language, with its three keys as fields.\<close>

record lang_entry =
  true_labels :: "int list"
  pred_labels :: "int list"
  pred_probs :: "(real \<times> real) list"

text \<open>
  A Python \<^verbatim>\<open>dict\<close> keeps its items in insertion order and its keys are distinct:
  it is modelled as the association list of its items, in that order.
\<close>

type_synonym 'v pydict = "(string \<times> 'v) list"


section \<open>Inference Runner: \<^verbatim>\<open>predict_with_probabilities\<close>\<close>

text \<open>
  The data frame of one language is a table with a text column and a label column: a
  list of rows. The checkpoint, the tokenizer and the network are outside the module;
  the embedding takes what they compute together as a parameter \<open>logits_of\<close>, the
  logits \<^verbatim>\<open>model(**tokenize_batch(batch)).logits\<close> of a batch of texts, one pair per
  row of the output tensor (\<^verbatim>\<open>num_labels=2\<close>). Whether the model path is a file
  is the parameter \<open>isfile\<close>.
\<close>

record row =
  row_text :: string
  row_label :: int

type_synonym dataframe = "row list"

text \<open>
  \<^verbatim>\<open>DataLoader(data, batch_size=batch_size, shuffle=False, collate_fn=...)\<close> cuts the
  data into consecutive batches of \<open>batch_size\<close> items, the last one possibly shorter,
  and refuses a batch size that is not positive.
\<close>

function batches :: "nat \<Rightarrow> 'a list \<Rightarrow> 'a list list" where
  "batches n xs = (if n = 0 \<or> xs = [] then [] else take n xs # batches n (drop n xs))"
  by pat_completeness auto
termination
  by (relation "measure (\<lambda>(n, xs). length xs)") auto

declare batches.simps [simp del]

definition DataLoader :: "'a list \<Rightarrow> int \<Rightarrow> error + 'a list list" where
  "DataLoader dataset batch_size =
     (if batch_size \<le> 0 then Inl (ValueError ''batch_size should be a positive integer value'')
      else Inr (batches (nat batch_size) dataset))"

text \<open>\<^verbatim>\<open>torch.nn.functional.softmax(logits, dim=1)\<close> on a row of two logits.\<close>

definition softmax :: "real \<times> real \<Rightarrow> real \<times> real" where
  "softmax l = (exp (fst l) / (exp (fst l) + exp (snd l)),
                exp (snd l) / (exp (fst l) + exp (snd l)))"

text \<open>
  Line 77 compares an array of single-precision probabilities with \<^verbatim>\<open>conf_th\<close>, a
  Python float of double precision: NumPy converts the scalar to the type of the array,
  \<^verbatim>\<open>float32\<close>, and compares there. The conversion rounds to the nearest
  single-precision number, a tie going to the even significand: 24 significant bits,
  the exponent not below \<open>-126\<close> (smaller numbers are subnormal). A result of magnitude
  \<open>2 ^ 128\<close> or more stands for an infinity: nothing is greater than the positive one,
  every probability is greater than the negative one.
\<close>

definition round_half_even :: "real \<Rightarrow> int" where
  "round_half_even q =
     (let f = \<lfloor>q\<rfloor>; d = q - of_int f
      in if d < 1 / 2 then f else if 1 / 2 < d then f + 1 else if even f then f else f + 1)"

definition float32_nearest :: "real \<Rightarrow> real" where
  "float32_nearest x =
     (if x = 0 then 0
      else (let e = max \<lfloor>log 2 \<bar>x\<bar>\<rfloor> (- 126);
                ulp = 2 powr (of_int e - 23)
            in sgn x * of_int (round_half_even (\<bar>x\<bar> / ulp)) * ulp))"

definition greater_float32 :: "real \<Rightarrow> real \<Rightarrow> bool" where
  "greater_float32 p c =
     (let r = float32_nearest c in if 2 ^ 128 \<le> \<bar>r\<bar> then r < 0 else r < p)"

text \<open>Line 77: \<^verbatim>\<open>np.where(probabilities[:, 1] > conf_th, 1, 0)\<close>.\<close>

definition threshold_predictions :: "real \<Rightarrow> (real \<times> real) list \<Rightarrow> int list" where
  "threshold_predictions conf_th probabilities =
     map (\<lambda>p. if greater_float32 (snd p) conf_th then 1 else 0) probabilities"

text \<open>
  The body of the batch loop (lines 71--80): the state is the pair of the two lists
  \<^verbatim>\<open>pred_labels\<close> and \<^verbatim>\<open>pred_probs\<close>, both extended by every batch.
\<close>

definition predict_batch ::
  "(string list \<Rightarrow> (real \<times> real) list) \<Rightarrow> real \<Rightarrow> string list
     \<Rightarrow> int list \<times> (real \<times> real) list \<Rightarrow> int list \<times> (real \<times> real) list" where
  "predict_batch logits_of conf_th batch acc =
     (let logits = logits_of batch;
          probabilities = map softmax logits;
          predictions = threshold_predictions conf_th probabilities
      in (fst acc @ predictions, snd acc @ probabilities))"

definition predict_language ::
  "(string list \<Rightarrow> (real \<times> real) list) \<Rightarrow> dataframe \<Rightarrow> int \<Rightarrow> real \<Rightarrow> error + lang_entry" where
  "predict_language logits_of lang_dataset batch_size conf_th =
     (case DataLoader (map row_text lang_dataset) batch_size of
        Inl e \<Rightarrow> Inl e
      | Inr data_loader \<Rightarrow>
          (let acc = fold (predict_batch logits_of conf_th) data_loader ([], [])
           in Inr \<lparr>true_labels = map row_label lang_dataset,
                   pred_labels = fst acc,
                   pred_probs = snd acc\<rparr>))"

text \<open>
  The loop over \<^verbatim>\<open>df_by_language.items()\<close> (lines 63--87); the assignment
  \<^verbatim>\<open>results_by_lang[lang] = {...}\<close> is the update of the association list.
\<close>

fun predict_languages ::
  "(string list \<Rightarrow> (real \<times> real) list) \<Rightarrow> dataframe pydict \<Rightarrow> int \<Rightarrow> real
     \<Rightarrow> lang_entry pydict \<Rightarrow> error + lang_entry pydict" where
  "predict_languages logits_of [] batch_size conf_th results_by_lang = Inr results_by_lang"
| "predict_languages logits_of ((lang, lang_dataset) # rest) batch_size conf_th results_by_lang =
     (case predict_language logits_of lang_dataset batch_size conf_th of
        Inl e \<Rightarrow> Inl e
      | Inr entry \<Rightarrow>
          predict_languages logits_of rest batch_size conf_th
            (AList.update lang entry results_by_lang))"

definition predict_with_probabilities ::
  "(string \<Rightarrow> bool) \<Rightarrow> (string list \<Rightarrow> (real \<times> real) list) \<Rightarrow> string
     \<Rightarrow> dataframe pydict \<Rightarrow> int \<Rightarrow> real \<Rightarrow> error + lang_entry pydict" where
  "predict_with_probabilities isfile logits_of model_path df_by_language batch_size conf_th =
     (if \<not> isfile model_path then Inl (AssertionError (''Model path '' @ model_path @ '' is not a file''))
      else predict_languages logits_of df_by_language batch_size conf_th [])"


section \<open>Confusion Matrix Reporter: \<^verbatim>\<open>show_confusion_matrix\<close>\<close>

text \<open>
  The loop of lines 112--114 extends the two lists of \<^verbatim>\<open>total_labels\<close> with the lists
  of every language, in the order of the dictionary. The pooled entry has no
  probabilities: its third field stays empty.
\<close>

definition pool_labels :: "lang_entry pydict \<Rightarrow> lang_entry" where
  "pool_labels labels_and_predictions_by_lang =
     fold (\<lambda>(lang, labels) total.
             total\<lparr>true_labels := true_labels total @ true_labels labels,
                   pred_labels := pred_labels total @ pred_labels labels\<rparr>)
          labels_and_predictions_by_lang
          \<lparr>true_labels = [], pred_labels = [], pred_probs = []\<rparr>"

text \<open>
  \<^verbatim>\<open>sklearn.metrics.confusion_matrix(y_true, y_pred, normalize='true')\<close>: the library
  refuses two sequences of different lengths and, in its recent versions, sequences
  without samples; the labels are the sorted distinct values of both sequences, the cell
  of row \<open>a\<close> and column \<open>b\<close> counts the samples with true label \<open>a\<close> and predicted
  label \<open>b\<close>, and every row is divided by its sum (a row without samples stays 0).
\<close>

definition confusion_matrix :: "int list \<Rightarrow> int list \<Rightarrow> error + real list list" where
  "confusion_matrix y_true y_pred =
     (if length y_true \<noteq> length y_pred then
        Inl (ValueError ''Found input variables with inconsistent numbers of samples'')
      else if y_true = [] then
        Inl (ValueError ''Found empty input array'')
      else
        (let labels = sort (remdups (y_true @ y_pred)) in
         Inr (map (\<lambda>a.
                 (let cells = map (\<lambda>b. real (length (filter (\<lambda>tp. tp = (a, b)) (zip y_true y_pred))))
                                  labels;
                      row_sum = sum_list cells
                  in map (\<lambda>c. if row_sum = 0 then 0 else c / row_sum) cells))
                 labels)))"

text \<open>
  Line 135: \<^verbatim>\<open>np.mean(np.array(true) == np.array(preds)) * 100\<close>, on sequences of equal
  length (the matrix has been computed before). The mean of no sample is not a number:
  the function has no value there.
\<close>

definition accuracy :: "int list \<Rightarrow> int list \<Rightarrow> real option" where
  "accuracy y_true y_pred =
     (if y_true = [] then None
      else Some (real (length (filter (\<lambda>tp. fst tp = snd tp) (zip y_true y_pred)))
                   / real (length y_true) * 100))"

record cm_panel =
  cm_title :: string
  cm_percent :: "real list list"
  cm_accuracy :: "real option"

text \<open>The body of the drawing loop (lines 127--146) for one entry of the dictionary.\<close>

definition draw_panel :: "string \<times> lang_entry \<Rightarrow> error + cm_panel" where
  "draw_panel item =
     (case confusion_matrix (true_labels (snd item)) (pred_labels (snd item)) of
        Inl e \<Rightarrow> Inl e
      | Inr cm \<Rightarrow>
          Inr \<lparr>cm_title = fst item,
               cm_percent = map (map (\<lambda>c. c * 100)) cm,
               cm_accuracy = accuracy (true_labels (snd item)) (pred_labels (snd item))\<rparr>)"

fun draw_panels :: "lang_entry pydict \<Rightarrow> error + cm_panel list" where
  "draw_panels [] = Inr []"
| "draw_panels (item # rest) =
     (case draw_panel item of
        Inl e \<Rightarrow> Inl e
      | Inr panel \<Rightarrow> (case draw_panels rest of Inl e \<Rightarrow> Inl e | Inr panels \<Rightarrow> Inr (panel # panels)))"

text \<open>
  The function, on values: the copy of the input with the key \<^verbatim>\<open>"all languages"\<close> set
  to the pooled entry (a key already present keeps its place and gets the new
  value, another one is added at the end), the two assertions in the order of the source,
  and the four panels. The figure is the value returned by the model.
\<close>

definition show_confusion_matrix :: "lang_entry pydict \<Rightarrow> error + cm_panel list" where
  "show_confusion_matrix labels_and_predictions_by_lang =
     (let total_labels = pool_labels labels_and_predictions_by_lang in
      if length (true_labels total_labels) \<noteq> length (pred_labels total_labels) then
        Inl (AssertionError ''Expected true and pred labels to have the same size. '')
      else
        (let with_pooled = AList.update ''all languages'' total_labels labels_and_predictions_by_lang in
         if length with_pooled \<noteq> 2 * 2 then
           Inl (AssertionError ''Expected 4 language entries, '')
         else draw_panels with_pooled))"


section \<open>The Confusion Matrix Reporter on a store of objects\<close>

text \<open>
  Dictionaries and lists are mutable objects, and the caller keeps a reference to the
  dictionary it passes. To follow what a call changes, the objects live in a store: an
  address is an index into the list of all objects, a dictionary maps its keys to the
  addresses of its values, and a list of labels or probabilities holds its items. A new
  object gets the next address.

  Modelled from the spec: the constants \<^verbatim>\<open>TRUE_LABELS\<close> and \<^verbatim>\<open>PRED_LABELS\<close> of
  \<^verbatim>\<open>utils/constants.py\<close>, which is not among the sources; their values are the keys
  \<^verbatim>\<open>'true_labels'\<close> and \<^verbatim>\<open>'pred_labels'\<close> that the message of the first assertion
  (line 118) reads from the same dictionary.
\<close>

definition TRUE_LABELS :: string where
  "TRUE_LABELS = ''true_labels''"

definition PRED_LABELS :: string where
  "PRED_LABELS = ''pred_labels''"

datatype pyobj =
    PyInts "int list"
  | PyProbs "(real \<times> real) list"
  | PyDict "(string \<times> nat) list"

type_synonym store = "pyobj list"

definition alloc :: "pyobj \<Rightarrow> store \<Rightarrow> nat \<times> store" where
  "alloc obj s = (length s, s @ [obj])"

definition lookup_obj :: "store \<Rightarrow> nat \<Rightarrow> error + pyobj" where
  "lookup_obj s a = (if a < length s then Inr (s ! a) else Inl (TypeError ''no object''))"

text \<open>\<^verbatim>\<open>d.items()\<close> and \<^verbatim>\<open>d[key]\<close> on the object at an address, and reading a list of labels.\<close>

definition dict_items :: "store \<Rightarrow> nat \<Rightarrow> error + (string \<times> nat) list" where
  "dict_items s a =
     (case lookup_obj s a of
        Inl e \<Rightarrow> Inl e
      | Inr (PyDict kvs) \<Rightarrow> Inr kvs
      | Inr _ \<Rightarrow> Inl (TypeError ''object has no attribute items''))"

definition getitem :: "store \<Rightarrow> nat \<Rightarrow> string \<Rightarrow> error + nat" where
  "getitem s a k =
     (case lookup_obj s a of
        Inl e \<Rightarrow> Inl e
      | Inr (PyDict kvs) \<Rightarrow> (case map_of kvs k of None \<Rightarrow> Inl (KeyError k) | Some v \<Rightarrow> Inr v)
      | Inr _ \<Rightarrow> Inl (TypeError ''list indices must be integers or slices, not str''))"

definition get_ints :: "store \<Rightarrow> nat \<Rightarrow> error + int list" where
  "get_ints s a =
     (case lookup_obj s a of
        Inl e \<Rightarrow> Inl e
      | Inr (PyInts xs) \<Rightarrow> Inr xs
      | Inr _ \<Rightarrow> Inl (TypeError ''not a list of labels''))"

text \<open>
  \<^verbatim>\<open>target.extend(source)\<close> changes the list at the address \<open>target\<close> in place and reads
  the one at \<open>source\<close>.
\<close>

definition list_extend :: "nat \<Rightarrow> nat \<Rightarrow> store \<Rightarrow> (error + unit) \<times> store" where
  "list_extend target source s =
     (case get_ints s target of
        Inl e \<Rightarrow> (Inl e, s)
      | Inr xs \<Rightarrow>
          (case get_ints s source of
             Inl e \<Rightarrow> (Inl e, s)
           | Inr ys \<Rightarrow> (Inr (), s[target := PyInts (xs @ ys)])))"

text \<open>One statement of the pooling loop: \<^verbatim>\<open>total_labels[key].extend(labels[key])\<close>.\<close>

definition extend_key :: "nat \<Rightarrow> nat \<Rightarrow> string \<Rightarrow> store \<Rightarrow> (error + unit) \<times> store" where
  "extend_key total_labels labels k s =
     (case getitem s total_labels k of
        Inl e \<Rightarrow> (Inl e, s)
      | Inr target \<Rightarrow>
          (case getitem s labels k of
             Inl e \<Rightarrow> (Inl e, s)
           | Inr source \<Rightarrow> list_extend target source s))"

fun pool_into :: "(string \<times> nat) list \<Rightarrow> nat \<Rightarrow> store \<Rightarrow> (error + unit) \<times> store" where
  "pool_into [] total_labels s = (Inr (), s)"
| "pool_into ((lang, labels) # rest) total_labels s =
     (case extend_key total_labels labels TRUE_LABELS s of
        (Inl e, s1) \<Rightarrow> (Inl e, s1)
      | (Inr _, s1) \<Rightarrow>
          (case extend_key total_labels labels PRED_LABELS s1 of
             (Inl e, s2) \<Rightarrow> (Inl e, s2)
           | (Inr _, s2) \<Rightarrow> pool_into rest total_labels s2))"

text \<open>
  \<^verbatim>\<open>copy.deepcopy\<close>: an object already copied is looked up in the memo; a list is
  copied to a new object; for a dictionary the new object is made and entered into the
  memo first, then the values are copied and the new dictionary is filled. The depth of
  the recursion is bounded by \<open>fuel\<close>; running out of it is Python's
  \<^verbatim>\<open>RecursionError\<close>.
\<close>

fun deepcopy ::
      "nat \<Rightarrow> nat \<Rightarrow> (nat \<times> nat) list \<times> store \<Rightarrow> (error + nat) \<times> (nat \<times> nat) list \<times> store"
  and deepcopy_items ::
      "nat \<Rightarrow> (string \<times> nat) list \<Rightarrow> (nat \<times> nat) list \<times> store
         \<Rightarrow> (error + (string \<times> nat) list) \<times> (nat \<times> nat) list \<times> store" where
  "deepcopy 0 a st = (Inl RecursionError, st)"
| "deepcopy (Suc fuel) a st =
     (case map_of (fst st) a of
        Some b \<Rightarrow> (Inr b, st)
      | None \<Rightarrow>
          (case lookup_obj (snd st) a of
             Inl e \<Rightarrow> (Inl e, st)
           | Inr (PyDict kvs) \<Rightarrow>
               (let b = length (snd st) in
                case deepcopy_items fuel kvs ((a, b) # fst st, snd st @ [PyDict []]) of
                  (Inl e, st1) \<Rightarrow> (Inl e, st1)
                | (Inr kvs1, st1) \<Rightarrow> (Inr b, fst st1, (snd st1)[b := PyDict kvs1]))
           | Inr obj \<Rightarrow> (Inr (length (snd st)), (a, length (snd st)) # fst st, snd st @ [obj])))"
| "deepcopy_items fuel [] st = (Inr [], st)"
| "deepcopy_items fuel ((k, v) # rest) st =
     (case deepcopy fuel v st of
        (Inl e, st1) \<Rightarrow> (Inl e, st1)
      | (Inr v1, st1) \<Rightarrow>
          (case deepcopy_items fuel rest st1 of
             (Inl e, st2) \<Rightarrow> (Inl e, st2)
           | (Inr rest1, st2) \<Rightarrow> (Inr ((k, v1) # rest1), st2)))"

text \<open>The entry of one panel, read through the references of the dictionary (line 128).\<close>

definition read_labels :: "store \<Rightarrow> nat \<Rightarrow> error + lang_entry" where
  "read_labels s values =
     (case getitem s values TRUE_LABELS of
        Inl e \<Rightarrow> Inl e
      | Inr t \<Rightarrow>
          (case getitem s values PRED_LABELS of
             Inl e \<Rightarrow> Inl e
           | Inr p \<Rightarrow>
               (case get_ints s t of
                  Inl e \<Rightarrow> Inl e
                | Inr y_true \<Rightarrow>
                    (case get_ints s p of
                       Inl e \<Rightarrow> Inl e
                     | Inr y_pred \<Rightarrow>
                         Inr \<lparr>true_labels = y_true, pred_labels = y_pred, pred_probs = []\<rparr>))))"

fun draw_panels_store :: "store \<Rightarrow> (string \<times> nat) list \<Rightarrow> error + cm_panel list" where
  "draw_panels_store s [] = Inr []"
| "draw_panels_store s ((lang, values) # rest) =
     (case read_labels s values of
        Inl e \<Rightarrow> Inl e
      | Inr entry \<Rightarrow>
          (case draw_panel (lang, entry) of
             Inl e \<Rightarrow> Inl e
           | Inr panel \<Rightarrow>
               (case draw_panels_store s rest of
                  Inl e \<Rightarrow> Inl e
                | Inr panels \<Rightarrow> Inr (panel # panels))))"

text \<open>
  The function on the store: \<open>d\<close> is the address of the caller's dictionary. The three
  objects of \<^verbatim>\<open>total_labels\<close> are new (lines 107--110); the loop extends its two
  lists (lines 112--114); the dictionary of the panels is a new object, made of the
  items of the deep copy and of the key \<^verbatim>\<open>"all languages"\<close> (lines 120--121); the
  local name is bound to it, the caller's object is not touched. The result is the
  figure and the store after the call.
\<close>

definition show_confusion_matrix_store :: "nat \<Rightarrow> store \<Rightarrow> (error + cm_panel list) \<times> store" where
  "show_confusion_matrix_store d s =
     (let s1 = s @ [PyInts [], PyInts [],
                    PyDict [(TRUE_LABELS, length s), (PRED_LABELS, Suc (length s))]];
          total_labels = Suc (Suc (length s))
      in case dict_items s1 d of
           Inl e \<Rightarrow> (Inl e, s1)
         | Inr kvs \<Rightarrow>
             (case pool_into kvs total_labels s1 of
                (Inl e, s2) \<Rightarrow> (Inl e, s2)
              | (Inr _, s2) \<Rightarrow>
                  (case read_labels s2 total_labels of
                     Inl e \<Rightarrow> (Inl e, s2)
                   | Inr pooled \<Rightarrow>
                       if length (true_labels pooled) \<noteq> length (pred_labels pooled) then
                         (Inl (AssertionError ''Expected true and pred labels to have the same size. ''), s2)
                       else
                         (case deepcopy (length s2) d ([], s2) of
                            (Inl e, st3) \<Rightarrow> (Inl e, snd st3)
                          | (Inr c, st3) \<Rightarrow>
                              (case dict_items (snd st3) c of
                                 Inl e \<Rightarrow> (Inl e, snd st3)
                               | Inr copied \<Rightarrow>
                                   (let with_pooled = AList.update ''all languages'' total_labels copied;
                                        s4 = snd st3 @ [PyDict with_pooled]
                                    in if length with_pooled \<noteq> 2 * 2 then
                                         (Inl (AssertionError ''Expected 4 language entries, ''), s4)
                                       else (draw_panels_store s4 with_pooled, s4)))))))"


text \<open>
  What the caller sees through its reference \<open>d\<close>: the language keys, in order, with
  the true and predicted label sequences of each.
\<close>

fun read_entries :: "store \<Rightarrow> (string \<times> nat) list \<Rightarrow> error + lang_entry pydict" where
  "read_entries s [] = Inr []"
| "read_entries s ((lang, values) # rest) =
     (case read_labels s values of
        Inl e \<Rightarrow> Inl e
      | Inr entry \<Rightarrow>
          (case read_entries s rest of
             Inl e \<Rightarrow> Inl e
           | Inr entries \<Rightarrow> Inr ((lang, entry) # entries)))"

definition read_dict :: "store \<Rightarrow> nat \<Rightarrow> error + lang_entry pydict" where
  "read_dict s d = (case dict_items s d of Inl e \<Rightarrow> Inl e | Inr kvs \<Rightarrow> read_entries s kvs)"


section \<open>Training Curve Plotter: \<^verbatim>\<open>plot_training_curves\<close>\<close>

text \<open>
  The two assertions of lines 164--167 are checked in order; when both pass, the two
  panels are drawn, each with its training and its validation series. The figure is
  the value returned by the model (the source shows it and returns nothing).
\<close>

record panel =
  panel_title :: string
  train_series :: "real list"
  val_series :: "real list"

definition plot_training_curves ::
  "real list \<Rightarrow> real list \<Rightarrow> real list \<Rightarrow> real list \<Rightarrow> error + panel list" where
  "plot_training_curves train_accs train_losses val_accs val_losses =
     (if length train_accs \<noteq> length val_accs then
        Inl (AssertionError ''Training and validation accuracies must have the same length, '')
      else if length train_losses \<noteq> length val_losses then
        Inl (AssertionError ''Training and validation losses must have the same length, '')
      else
        Inr [\<lparr>panel_title = ''Accuracy'', train_series = train_accs, val_series = val_accs\<rparr>,
             \<lparr>panel_title = ''Loss'', train_series = train_losses, val_series = val_losses\<rparr>])"


section \<open>Precision-Recall Analyzer: \<^verbatim>\<open>plot_combined_precision_recall_curve\<close>\<close>

subsection \<open>The library routines the function calls\<close>

text \<open>
  \<^verbatim>\<open>sklearn.metrics.precision_recall_curve\<close>, \<^verbatim>\<open>sklearn.metrics.auc\<close> and
  \<^verbatim>\<open>numpy.argmax\<close> are not code of the module; they are modelled after the algorithms of
  scikit-learn (version 1.1 and later, without sample weights) and NumPy, on real numbers.

  \<^verbatim>\<open>_binary_clf_curve\<close>: the samples are sorted by decreasing score (a stable ascending
  sort, reversed); the threshold indices are the positions where the score changes, and
  the last position; at each of them the true positives are the cumulative count of
  positive labels and the false positives are the remaining samples up to there.
\<close>

definition threshold_idxs :: "real list \<Rightarrow> nat list" where
  "threshold_idxs y_score =
     filter (\<lambda>i. Suc i = length y_score \<or> y_score ! Suc i - y_score ! i \<noteq> 0)
            [0..<length y_score]"

definition tps_at :: "(int \<times> real) list \<Rightarrow> nat \<Rightarrow> nat" where
  "tps_at samples i = length (filter (\<lambda>s. fst s = 1) (take (Suc i) samples))"

definition binary_clf_curve :: "(int \<times> real) list \<Rightarrow> nat list \<times> nat list \<times> real list" where
  "binary_clf_curve samples =
     (let sorted_samples = rev (sort_key snd samples);
          y_score = map snd sorted_samples;
          idxs = threshold_idxs y_score;
          tps = map (tps_at sorted_samples) idxs;
          fps = map (\<lambda>i. 1 + i - tps_at sorted_samples i) idxs
      in (fps, tps, map (\<lambda>i. y_score ! i) idxs))"

text \<open>
  The positive label is inferred as 1: the library accepts the label sets \<open>{0, 1}\<close>,
  \<open>{-1, 1}\<close>, \<open>{0}\<close>, \<open>{-1}\<close> and \<open>{1}\<close> and raises \<^verbatim>\<open>ValueError\<close> for any other
  one, for no sample at all, for more than two classes and for sequences of different
  lengths.
\<close>

definition labels_accepted :: "int list \<Rightarrow> bool" where
  "labels_accepted y_true =
     (sort (remdups y_true) \<in> set [[0, 1], [-1, 1], [0], [-1], [1]])"

text \<open>
  \<^verbatim>\<open>precision_recall_curve\<close>: precision is \<open>tps / (tps + fps)\<close>, recall is
  \<open>tps / tps[-1]\<close> (all ones when there is no positive sample); the points are returned in
  the order of increasing threshold, followed by the point of precision 1 and recall 0,
  which has no threshold.
\<close>

definition precision_recall_curve ::
  "int list \<Rightarrow> real list \<Rightarrow> error + real list \<times> real list \<times> real list" where
  "precision_recall_curve y_true probas_pred =
     (if 2 < length (remdups y_true) then
        Inl (ValueError ''multiclass format is not supported'')
      else if length y_true \<noteq> length probas_pred then
        Inl (ValueError ''Found input variables with inconsistent numbers of samples'')
      else if \<not> labels_accepted y_true then
        Inl (ValueError ''y_true takes value outside {0, 1} or {-1, 1} and pos_label is not specified'')
      else
        (case binary_clf_curve (zip y_true probas_pred) of
           (fps, tps, thresholds) \<Rightarrow>
             (let precision = map2 (\<lambda>tp fp. real tp / (real tp + real fp)) tps fps;
                  recall = (if last tps = 0 then map (\<lambda>tp. 1) tps
                            else map (\<lambda>tp. real tp / real (last tps)) tps)
              in Inr (rev precision @ [1], rev recall @ [0], rev thresholds))))"

text \<open>
  \<^verbatim>\<open>auc(x, y)\<close>: the trapezoidal rule, with the sign of a decreasing \<open>x\<close> undone; the
  library refuses fewer than two points and an \<open>x\<close> that neither increases nor decreases.
\<close>

definition np_diff :: "real list \<Rightarrow> real list" where
  "np_diff x = map2 (\<lambda>a b. b - a) x (tl x)"

definition np_trapz :: "real list \<Rightarrow> real list \<Rightarrow> real" where
  "np_trapz y x = sum_list (map2 (\<lambda>d s. d * s / 2) (np_diff x) (map2 (\<lambda>a b. b + a) y (tl y)))"

definition auc :: "real list \<Rightarrow> real list \<Rightarrow> error + real" where
  "auc x y =
     (if length x \<noteq> length y then
        Inl (ValueError ''Found input variables with inconsistent numbers of samples'')
      else if length x < 2 then
        Inl (ValueError ''At least 2 points are needed to compute area under curve'')
      else if list_ex (\<lambda>d. d < 0) (np_diff x) then
        (if list_all (\<lambda>d. d \<le> 0) (np_diff x) then Inr (- 1 * np_trapz y x)
         else Inl (ValueError ''x is neither increasing nor decreasing''))
      else Inr (np_trapz y x))"

text \<open>
  \<^verbatim>\<open>numpy.argmax\<close>: the index of the first occurrence of the maximum. The scan keeps the
  best index and its value and moves on a strictly greater value only.
\<close>

fun argmax_from :: "nat \<Rightarrow> real \<Rightarrow> nat \<Rightarrow> real list \<Rightarrow> nat" where
  "argmax_from best v i [] = best"
| "argmax_from best v i (x # xs) =
     (if v < x then argmax_from i x (Suc i) xs else argmax_from best v (Suc i) xs)"

definition np_argmax :: "real list \<Rightarrow> error + nat" where
  "np_argmax a =
     (case a of
        [] \<Rightarrow> Inl (ValueError ''attempt to get argmax of an empty sequence'')
      | x # xs \<Rightarrow> Inr (argmax_from 0 x 1 xs))"

subsection \<open>The function\<close>

text \<open>
  The loop of lines 196--198 pools the true labels and the probabilities of the toxic
  class (the second component of every pair) of all languages, in the order of the
  dictionary.
\<close>

definition pool_scores :: "lang_entry pydict \<Rightarrow> int list \<times> real list" where
  "pool_scores results_by_lang =
     fold (\<lambda>(lang, data) total.
             (fst total @ true_labels data, snd total @ map snd (pred_probs data)))
          results_by_lang ([], [])"

text \<open>
  What the function draws: the curve, the area in the legend, and the optimal point with
  its threshold. The lookup \<^verbatim>\<open>thresholds[optimal_idx]\<close> raises \<^verbatim>\<open>IndexError\<close> past the
  end of the thresholds.
\<close>

record pr_figure =
  pr_recall :: "real list"
  pr_precision :: "real list"
  pr_auc :: real
  optimal_idx :: nat
  optimal_threshold :: real

definition plot_combined_precision_recall_curve :: "lang_entry pydict \<Rightarrow> error + pr_figure" where
  "plot_combined_precision_recall_curve results_by_lang =
     (case pool_scores results_by_lang of
        (total_true_labels, total_pred_probs) \<Rightarrow>
          (case precision_recall_curve total_true_labels total_pred_probs of
             Inl e \<Rightarrow> Inl e
           | Inr (precision, recall, thresholds) \<Rightarrow>
               (case auc recall precision of
                  Inl e \<Rightarrow> Inl e
                | Inr area \<Rightarrow>
                    (case np_argmax (map sqrt (map2 (\<lambda>p r. p * r) precision recall)) of
                       Inl e \<Rightarrow> Inl e
                     | Inr idx \<Rightarrow>
                         (if idx < length thresholds then
                            Inr \<lparr>pr_recall = recall, pr_precision = precision, pr_auc = area,
                                 optimal_idx = idx, optimal_threshold = thresholds ! idx\<rparr>
                          else Inl IndexError)))))"


section \<open>Failure Extractor: \<^verbatim>\<open>find_top_failures\<close>\<close>

text \<open>
  Modelled from the spec: the constants \<^verbatim>\<open>TOXIC\<close> and \<^verbatim>\<open>NON_TOXIC\<close> of
  \<^verbatim>\<open>utils/constants.py\<close>, which is not among the sources. Their values are the ones
  the docstring of \<^verbatim>\<open>find_top_failures\<close> shows in the keys \<^verbatim>\<open>'False TOXIC'\<close> and
  \<^verbatim>\<open>'False NON-TOXIC'\<close>.
\<close>

definition TOXIC :: string where
  "TOXIC = ''TOXIC''"

definition NON_TOXIC :: string where
  "NON_TOXIC = ''NON-TOXIC''"

text \<open>The dictionary built at line 250 for one misclassified row.\<close>

record failure_info =
  true_label :: int
  pred_label :: int
  confidence :: real
  failure_text :: string

text \<open>
  The dictionary \<^verbatim>\<open>failure_info\<close> of line 250 for row \<open>i\<close> of the data frame and
  the item \<open>(true_label, pred_label, prob)\<close> of the zipped lists; the confidence is
  \<^verbatim>\<open>max(prob)\<close> over the two components of the row's probabilities.
\<close>

definition failure_record :: "dataframe \<Rightarrow> nat \<Rightarrow> int \<times> int \<times> real \<times> real \<Rightarrow> failure_info" where
  "failure_record test_set i z =
     \<lparr>true_label = fst z, pred_label = fst (snd z),
      confidence = max (fst (snd (snd z))) (snd (snd (snd z))),
      failure_text = row_text (test_set ! i)\<rparr>"

text \<open>
  The loop of lines 246--255 over \<^verbatim>\<open>enumerate(zip(true_labels, pred_labels, pred_probs))\<close>:
  \<open>i\<close> is the index of the head of the zipped list, the accumulator is the pair of
  \<^verbatim>\<open>failures_false_toxic\<close> and \<^verbatim>\<open>failures_false_nontoxic\<close>.
  \<^verbatim>\<open>test_set.iloc[i]\<close> raises \<^verbatim>\<open>IndexError\<close> past the last row of the data frame.
\<close>

fun collect_failures ::
  "dataframe \<Rightarrow> nat \<Rightarrow> (int \<times> int \<times> real \<times> real) list
     \<Rightarrow> failure_info list \<times> failure_info list
     \<Rightarrow> error + failure_info list \<times> failure_info list" where
  "collect_failures test_set i [] acc = Inr acc"
| "collect_failures test_set i (z # rest) acc =
     (if fst z \<noteq> fst (snd z) then
        (if i < length test_set then
           (if fst z = 0 then
              collect_failures test_set (Suc i) rest
                (fst acc @ [failure_record test_set i z], snd acc)
            else
              collect_failures test_set (Suc i) rest
                (fst acc, snd acc @ [failure_record test_set i z]))
         else Inl IndexError)
      else collect_failures test_set (Suc i) rest acc)"

text \<open>
  \<^verbatim>\<open>sorted(xs, key=..., reverse=True)\<close> is a stable sort in descending order of the
  key: the list is reversed, sorted stably in ascending order, and reversed again. The
  slice \<^verbatim>\<open>xs[:k]\<close> keeps the first \<open>k\<close> items and, for a negative \<open>k\<close>, drops the
  last \<open>-k\<close> ones.
\<close>

definition sorted_reverse :: "('a \<Rightarrow> real) \<Rightarrow> 'a list \<Rightarrow> 'a list" where
  "sorted_reverse key xs = rev (sort_key key (rev xs))"

definition slice_to :: "'a list \<Rightarrow> int \<Rightarrow> 'a list" where
  "slice_to xs k = (if k < 0 then take (nat (int (length xs) + k)) xs else take (nat k) xs)"

text \<open>The body of the loop over the languages (lines 240--261) for one language.\<close>

definition language_top_failures ::
  "lang_entry pydict \<Rightarrow> string \<Rightarrow> dataframe \<Rightarrow> int \<Rightarrow> error + failure_info list pydict" where
  "language_top_failures matches_by_language lang test_set top_failures =
     (case map_of matches_by_language lang of
        None \<Rightarrow> Inl (KeyError lang)
      | Some m \<Rightarrow>
          (case collect_failures test_set 0
                  (zip (true_labels m) (zip (pred_labels m) (pred_probs m))) ([], []) of
             Inl e \<Rightarrow> Inl e
           | Inr failures \<Rightarrow>
               Inr [(''False '' @ TOXIC,
                       slice_to (sorted_reverse confidence (fst failures)) top_failures),
                    (''False '' @ NON_TOXIC,
                       slice_to (sorted_reverse confidence (snd failures)) top_failures)]))"

fun find_top_failures_loop ::
  "dataframe pydict \<Rightarrow> lang_entry pydict \<Rightarrow> int
     \<Rightarrow> failure_info list pydict pydict \<Rightarrow> error + failure_info list pydict pydict" where
  "find_top_failures_loop [] matches_by_language top_failures top_failures_by_language =
     Inr top_failures_by_language"
| "find_top_failures_loop ((lang, test_set) # rest) matches_by_language top_failures
       top_failures_by_language =
     (case language_top_failures matches_by_language lang test_set top_failures of
        Inl e \<Rightarrow> Inl e
      | Inr categories \<Rightarrow>
          find_top_failures_loop rest matches_by_language top_failures
            (AList.update lang categories top_failures_by_language))"

definition find_top_failures ::
  "dataframe pydict \<Rightarrow> lang_entry pydict \<Rightarrow> int \<Rightarrow> error + failure_info list pydict pydict" where
  "find_top_failures dataset_by_language matches_by_language top_failures =
     find_top_failures_loop dataset_by_language matches_by_language top_failures []"


section \<open>Properties of the Training Curve Plotter\<close>

text \<open>
  Claim C7. \<^verbatim>\<open>plot_training_curves\<close> fails if and only if the train and validation
  accuracy sequences differ in length or the train and validation loss sequences differ
  in length. The two pairs are checked independently: nothing relates the length of the
  accuracy sequences to the length of the loss sequences.
\<close>

theorem plot_training_curves_fails_iff:
  "(\<exists>e. plot_training_curves train_accs train_losses val_accs val_losses = Inl e)
     \<longleftrightarrow> (length train_accs \<noteq> length val_accs \<or> length train_losses \<noteq> length val_losses)"
  by (simp add: plot_training_curves_def)

theorem plot_training_curves_fails_iff_witness:
  "\<not> (\<exists>e. plot_training_curves [0.5] [1, 2] [0.4] [3, 4] = Inl e)
   \<and> (\<exists>e. plot_training_curves [0.5, 0.6] [1] [0.4] [3] = Inl e)
   \<and> (\<exists>e. plot_training_curves [0.5] [1, 2] [0.4] [3] = Inl e)"
  using plot_training_curves_fails_iff [of "[0.5]" "[1, 2]" "[0.4]" "[3, 4]"]
        plot_training_curves_fails_iff [of "[0.5, 0.6]" "[1]" "[0.4]" "[3]"]
        plot_training_curves_fails_iff [of "[0.5]" "[1, 2]" "[0.4]" "[3]"]
  by simp


section \<open>Properties of the Inference Runner\<close>

text \<open>Batching loses no row and keeps the order: the batches concatenate to the data.\<close>

lemma concat_batches: "0 < n \<Longrightarrow> concat (batches n xs) = xs"
proof (induction n xs rule: batches.induct)
  case (1 n xs)
  then show ?case by (subst batches.simps) auto
qed

text \<open>
  The conversion to single precision: the rounded quotient is within one half of the
  quotient; between \<open>1/2\<close> and \<open>1\<close> the single-precision numbers are the multiples of
  \<open>2 ^ -24\<close>, each of which is kept, and the conversion moves a number by at most
  \<open>2 ^ -25\<close>.
\<close>

lemma round_half_even_near: "\<bar>of_int (round_half_even q) - q\<bar> \<le> 1 / 2"
  by (auto simp: round_half_even_def Let_def)

lemma round_half_even_of_int: "round_half_even (of_int m) = m"
  by (simp add: round_half_even_def)

lemma float32_nearest_normal:
  assumes "2 powr of_int e \<le> \<bar>x\<bar>" "\<bar>x\<bar> < 2 powr (of_int e + 1)" "- 126 \<le> e"
  shows "float32_nearest x
           = sgn x * of_int (round_half_even (\<bar>x\<bar> / 2 powr (of_int e - 23)))
               * 2 powr (of_int e - 23)"
proof -
  have "0 < 2 powr (of_int e :: real)" by simp
  with assms(1) have pos: "0 < \<bar>x\<bar>" by linarith
  then have "x \<noteq> 0" by simp
  moreover from pos assms(1,2) have "\<lfloor>log 2 \<bar>x\<bar>\<rfloor> = e"
    by (simp add: floor_log_eq_powr_iff)
  ultimately show ?thesis using assms(3) by (simp add: float32_nearest_def Let_def max_def)
qed

lemma float32_nearest_half_to_one:
  assumes "1 / 2 \<le> x" "x < 1"
  shows "float32_nearest x = of_int (round_half_even (x * 2 ^ 24)) / 2 ^ 24"
proof -
  have p: "2 powr (of_int (- 1) - 23) = 1 / (2 ^ 24 :: real)"
    by (simp add: powr_minus_divide)
  have "2 powr of_int (- 1) \<le> \<bar>x\<bar>" "\<bar>x\<bar> < 2 powr (of_int (- 1) + 1)"
    using assms by (simp_all add: powr_minus_divide)
  from float32_nearest_normal [OF this] assms show ?thesis
    by (simp only: p) simp
qed

lemma float32_nearest_kept:
  assumes "2 ^ 23 \<le> m" "m < 2 ^ 24"
  shows "float32_nearest (of_int m / 2 ^ 24) = of_int m / 2 ^ 24"
proof -
  from assms have "1 / 2 \<le> (of_int m / 2 ^ 24 :: real)" "(of_int m / 2 ^ 24 :: real) < 1"
    by (simp_all add: field_simps)
  from float32_nearest_half_to_one [OF this] show ?thesis
    by (simp add: round_half_even_of_int)
qed

lemma float32_nearest_close:
  assumes "1 / 2 \<le> x" "x < 1"
  shows "\<bar>float32_nearest x - x\<bar> \<le> 1 / 2 ^ 25"
proof -
  have "\<bar>of_int (round_half_even (x * 2 ^ 24)) - x * 2 ^ 24\<bar> \<le> 1 / 2"
    by (rule round_half_even_near)
  then have "\<bar>of_int (round_half_even (x * 2 ^ 24)) / 2 ^ 24 - x\<bar> \<le> 1 / 2 / 2 ^ 24"
    by (simp add: field_simps abs_le_iff)
  then show ?thesis by (simp add: float32_nearest_half_to_one [OF assms])
qed

lemma float32_nearest_one_half: "float32_nearest (1 / 2) = 1 / 2"
  by (simp add: float32_nearest_half_to_one round_half_even_def)

lemma greater_float32_one_half: "greater_float32 p (1 / 2) \<longleftrightarrow> 1 / 2 < p"
  by (simp add: greater_float32_def float32_nearest_one_half)

lemma fold_predict_batch:
  "fold (predict_batch logits_of conf_th) bs acc =
     (fst acc @ threshold_predictions conf_th (map softmax (concat (map logits_of bs))),
      snd acc @ map softmax (concat (map logits_of bs)))"
  by (induction bs arbitrary: acc)
     (simp_all add: predict_batch_def threshold_predictions_def Let_def)

lemma predict_language_Inr:
  assumes "predict_language logits_of ds batch_size conf_th = Inr r"
  shows "0 < batch_size"
    and "true_labels r = map row_label ds"
    and "pred_probs r =
           map softmax (concat (map logits_of (batches (nat batch_size) (map row_text ds))))"
    and "pred_labels r = threshold_predictions conf_th (pred_probs r)"
  using assms
  by (auto simp: predict_language_def DataLoader_def fold_predict_batch Let_def
           split: if_splits)

lemma set_update_subset: "set (AList.update k v al) \<subseteq> insert (k, v) (set al)"
  by (induction al) auto

text \<open>Every entry of the result is the record computed for one language of the input.\<close>

lemma predict_languages_entries:
  assumes "predict_languages logits_of df batch_size conf_th acc = Inr results"
      and "(lang, r) \<in> set results"
  shows "(lang, r) \<in> set acc \<or>
         (\<exists>ds. (lang, ds) \<in> set df \<and> predict_language logits_of ds batch_size conf_th = Inr r)"
  using assms
proof (induction df arbitrary: acc)
  case Nil
  then show ?case by simp
next
  case (Cons p df)
  obtain l ds where p: "p = (l, ds)" by (cases p)
  from Cons.prems(1) p obtain entry where
    entry: "predict_language logits_of ds batch_size conf_th = Inr entry"
    and rest: "predict_languages logits_of df batch_size conf_th (AList.update l entry acc)
                 = Inr results"
    by (auto split: sum.splits)
  from Cons.IH [OF rest Cons.prems(2)]
  show ?case
  proof
    assume "(lang, r) \<in> set (AList.update l entry acc)"
    with set_update_subset [of l entry acc]
    have "(lang, r) = (l, entry) \<or> (lang, r) \<in> set acc" by auto
    with entry p show ?thesis by auto
  next
    assume "\<exists>ds. (lang, ds) \<in> set df \<and> predict_language logits_of ds batch_size conf_th = Inr r"
    then show ?thesis by auto
  qed
qed

lemma predict_with_probabilities_entries:
  assumes "predict_with_probabilities isfile logits_of model_path df batch_size conf_th
             = Inr results"
      and "(lang, r) \<in> set results"
  shows "\<exists>ds. (lang, ds) \<in> set df \<and> predict_language logits_of ds batch_size conf_th = Inr r"
  using assms predict_languages_entries [of logits_of df batch_size conf_th "[]" results lang r]
  by (auto simp: predict_with_probabilities_def split: if_splits)

lemma length_concat_rows:
  assumes "\<forall>batch. length (logits_of batch) = length batch"
  shows "length (concat (map logits_of bs)) = length (concat bs)"
  using assms by (induction bs) simp_all

text \<open>With an existing model file and a positive batch size the function returns.\<close>

lemma predict_languages_returns:
  assumes "0 < batch_size"
  shows "\<exists>results. predict_languages logits_of df batch_size conf_th acc = Inr results"
proof (induction df arbitrary: acc)
  case Nil
  show ?case by simp
next
  case (Cons p df)
  obtain lang ds where p: "p = (lang, ds)" by (cases p)
  from assms obtain entry where "predict_language logits_of ds batch_size conf_th = Inr entry"
    by (simp add: predict_language_def DataLoader_def Let_def)
  with Cons.IH [of "AList.update lang entry acc"] p show ?case by simp
qed

lemma predict_with_probabilities_returns:
  assumes "isfile model_path" and "0 < batch_size"
  shows "\<exists>results. predict_with_probabilities isfile logits_of model_path df_by_language
                      batch_size conf_th = Inr results"
  using assms predict_languages_returns [of batch_size logits_of df_by_language conf_th "[]"]
  by (simp add: predict_with_probabilities_def)


text \<open>
  Claim C1, amended. For every row of every language of the result, the predicted label
  is 1 if the probability of class 1 (the second component of the softmax of the row's
  logits) is strictly greater than \<open>conf_th\<close> converted to single precision, the
  precision of the probabilities, and 0 otherwise. When \<open>conf_th\<close> is a single-precision
  number, as 0.5 is, the comparison is with \<open>conf_th\<close> itself. The probabilities of the
  result are the softmax of the logits of the language's batches, in order. For the pair
  \<open>(0.5, 0.5)\<close> and \<open>conf_th = 0.5\<close> the label is 0; for \<open>(0.4, 0.6)\<close> it is 1.
\<close>

theorem predicted_label_threshold_rule:
  assumes "predict_with_probabilities isfile logits_of model_path df_by_language batch_size conf_th
             = Inr results"
      and "(lang, r) \<in> set results"
  shows "(\<exists>ds. (lang, ds) \<in> set df_by_language \<and>
              pred_probs r = map softmax (concat (map logits_of
                                (batches (nat batch_size) (map row_text ds)))))
       \<and> length (pred_labels r) = length (pred_probs r)
       \<and> (\<forall>i < length (pred_probs r).
             pred_labels r ! i
               = (if greater_float32 (snd (pred_probs r ! i)) conf_th then 1 else 0))
       \<and> (\<bar>float32_nearest conf_th\<bar> < 2 ^ 128 \<longrightarrow>
            (\<forall>i < length (pred_probs r).
               pred_labels r ! i
                 = (if snd (pred_probs r ! i) > float32_nearest conf_th then 1 else 0)))
       \<and> (float32_nearest conf_th = conf_th \<longrightarrow> \<bar>conf_th\<bar> < 2 ^ 128 \<longrightarrow>
            (\<forall>i < length (pred_probs r).
               pred_labels r ! i = (if snd (pred_probs r ! i) > conf_th then 1 else 0)))
       \<and> float32_nearest 0.5 = 0.5
       \<and> threshold_predictions 0.5 [(0.5, 0.5)] = [0]
       \<and> threshold_predictions 0.5 [(0.4, 0.6)] = [1]"
proof -
  from predict_with_probabilities_entries [OF assms] obtain ds where
    ds: "(lang, ds) \<in> set df_by_language"
    and r: "predict_language logits_of ds batch_size conf_th = Inr r" by blast
  note facts = predict_language_Inr [OF r]
  have probs: "\<exists>ds. (lang, ds) \<in> set df_by_language \<and>
              pred_probs r = map softmax (concat (map logits_of
                                (batches (nat batch_size) (map row_text ds))))"
    using ds facts(3) by blast
  have len: "length (pred_labels r) = length (pred_probs r)"
    by (simp add: facts(4) threshold_predictions_def)
  have rule: "\<forall>i < length (pred_probs r).
             pred_labels r ! i
               = (if greater_float32 (snd (pred_probs r ! i)) conf_th then 1 else 0)"
    by (subst facts(4)) (simp add: threshold_predictions_def)
  have finite: "\<forall>i < length (pred_probs r).
               pred_labels r ! i
                 = (if snd (pred_probs r ! i) > float32_nearest conf_th then 1 else 0)"
    if "\<bar>float32_nearest conf_th\<bar> < 2 ^ 128"
    using rule that by (simp add: greater_float32_def Let_def)
  have exact: "\<forall>i < length (pred_probs r).
               pred_labels r ! i = (if snd (pred_probs r ! i) > conf_th then 1 else 0)"
    if "float32_nearest conf_th = conf_th" "\<bar>conf_th\<bar> < 2 ^ 128"
    using finite that by simp
  have half: "float32_nearest 0.5 = 0.5"
    using float32_nearest_one_half by simp
  have ex1: "threshold_predictions 0.5 [(0.5, 0.5)] = [0]"
    using greater_float32_one_half [of "1 / 2"] by (simp add: threshold_predictions_def)
  have ex2: "threshold_predictions 0.5 [(0.4, 0.6)] = [1]"
    using greater_float32_one_half [of "6 / 10"] by (simp add: threshold_predictions_def)
  from probs len rule finite exact half ex1 ex2 show ?thesis by (intro conjI impI)
qed

text \<open>
  A run on three rows in batches of two: the logits \<open>(0, 0)\<close> give the probabilities
  \<open>(1/2, 1/2)\<close> and the label 0, the logits \<open>(ln 0.4, ln 0.6)\<close> give \<open>(2/5, 3/5)\<close>
  and the label 1.
\<close>

theorem predicted_label_threshold_rule_witness:
  "predict_with_probabilities (\<lambda>_. True)
      (map (\<lambda>t. if t = ''you are great'' then (0, 0) else (ln 0.4, ln 0.6))) ''model.pt''
      [(''en'', [\<lparr>row_text = ''you are great'', row_label = 0\<rparr>,
                 \<lparr>row_text = ''i hate you'', row_label = 1\<rparr>,
                 \<lparr>row_text = ''go away'', row_label = 1\<rparr>])] 2 0.5
     = Inr [(''en'', \<lparr>true_labels = [0, 1, 1], pred_labels = [0, 1, 1],
                      pred_probs = [(1 / 2, 1 / 2), (2 / 5, 3 / 5), (2 / 5, 3 / 5)]\<rparr>)]
   \<and> [0, 1, 1 :: int] ! 0 = (if snd ((1 / 2, 1 / 2) :: real \<times> real) > 0.5 then 1 else 0)
   \<and> [0, 1, 1 :: int] ! 1 = (if snd ((2 / 5, 3 / 5) :: real \<times> real) > 0.5 then 1 else 0)"
proof -
  let ?R = "\<lparr>true_labels = [0, 1, 1], pred_labels = [0, 1, 1],
             pred_probs = [(1 / 2, 1 / 2), (2 / 5, 3 / 5), (2 / 5, 3 / 5)]\<rparr>"
  have run: "predict_with_probabilities (\<lambda>_. True)
      (map (\<lambda>t. if t = ''you are great'' then (0, 0) else (ln 0.4, ln 0.6))) ''model.pt''
      [(''en'', [\<lparr>row_text = ''you are great'', row_label = 0\<rparr>,
                 \<lparr>row_text = ''i hate you'', row_label = 1\<rparr>,
                 \<lparr>row_text = ''go away'', row_label = 1\<rparr>])] 2 0.5
     = Inr [(''en'', ?R)]"
    using greater_float32_one_half [of "1 / 2"] greater_float32_one_half [of "3 / 5"]
    by (simp add: predict_with_probabilities_def predict_language_def DataLoader_def
          batches.simps predict_batch_def softmax_def threshold_predictions_def)
  have mem: "(''en'', ?R) \<in> set [(''en'', ?R)]" by simp
  have kept: "float32_nearest 0.5 = 0.5" using float32_nearest_one_half by simp
  have small: "\<bar>0.5 :: real\<bar> < 2 ^ 128" by simp
  from predicted_label_threshold_rule [OF run mem] kept small
  have "\<forall>i < length (pred_probs ?R).
          pred_labels ?R ! i = (if snd (pred_probs ?R ! i) > 0.5 then 1 else 0)"
    by blast
  then have "pred_labels ?R ! 0 = (if snd (pred_probs ?R ! 0) > 0.5 then 1 else 0)"
        and "pred_labels ?R ! 1 = (if snd (pred_probs ?R ! 1) > 0.5 then 1 else 0)"
    by simp_all
  with run show ?thesis by simp
qed

text \<open>
  Claim C1 as stated fails where \<open>conf_th\<close> is not a single-precision number. The Python
  float \<^verbatim>\<open>0.6\<close> is the double \<open>5404319552844595 / 2 ^ 53\<close>, a little below \<open>0.6\<close>;
  its conversion to single precision is \<open>5033165 / 2 ^ 23\<close>, a little above \<open>0.6\<close>. A row
  whose probability of class 1 is that single-precision number is strictly above
  \<open>conf_th\<close>, and its predicted label is 0.
\<close>

theorem predicted_label_above_threshold_counterexample:
  "predict_with_probabilities (\<lambda>_. True)
      (map (\<lambda>t. (ln (3355443 / 8388608), ln (5033165 / 8388608)))) ''model.pt''
      [(''en'', [\<lparr>row_text = ''borderline'', row_label = 1\<rparr>])] 32
      (5404319552844595 / 9007199254740992)
     = Inr [(''en'', \<lparr>true_labels = [1], pred_labels = [0],
                      pred_probs = [(3355443 / 8388608, 5033165 / 8388608)]\<rparr>)]
   \<and> (5404319552844595 / 9007199254740992 :: real) < 5033165 / 8388608
   \<and> float32_nearest (5404319552844595 / 9007199254740992) = 5033165 / 8388608"
proof -
  have round: "float32_nearest (5404319552844595 / 9007199254740992) = 5033165 / 8388608"
    by (simp add: float32_nearest_half_to_one round_half_even_def)
  have "\<not> greater_float32 (5033165 / 8388608) (5404319552844595 / 9007199254740992)"
    by (simp add: greater_float32_def round)
  then have "predict_with_probabilities (\<lambda>_. True)
      (map (\<lambda>t. (ln (3355443 / 8388608), ln (5033165 / 8388608)))) ''model.pt''
      [(''en'', [\<lparr>row_text = ''borderline'', row_label = 1\<rparr>])] 32
      (5404319552844595 / 9007199254740992)
     = Inr [(''en'', \<lparr>true_labels = [1], pred_labels = [0],
                      pred_probs = [(3355443 / 8388608, 5033165 / 8388608)]\<rparr>)]"
    by (simp add: predict_with_probabilities_def predict_language_def DataLoader_def
          batches.simps predict_batch_def softmax_def threshold_predictions_def)
  with round show ?thesis by simp
qed

text \<open>
  Claim C5. For every accepted input and every language of the result, the three
  sequences \<open>true_labels\<close>, \<open>pred_labels\<close> and \<open>pred_probs\<close> of the language's record
  have equal length. The network is outside the module: the statement holds for a
  network whose logits tensor has one row per text of the batch.
\<close>

theorem prediction_result_lengths_agree:
  assumes "\<forall>batch. length (logits_of batch) = length batch"
      and "predict_with_probabilities isfile logits_of model_path df_by_language batch_size conf_th
             = Inr results"
      and "(lang, r) \<in> set results"
  shows "length (true_labels r) = length (pred_labels r)
       \<and> length (pred_labels r) = length (pred_probs r)"
proof -
  from predict_with_probabilities_entries [OF assms(2,3)] obtain ds where
    r: "predict_language logits_of ds batch_size conf_th = Inr r" by blast
  note facts = predict_language_Inr [OF r]
  have "length (pred_probs r) = length (map row_text ds)"
    using facts(1) by (simp add: facts(3) length_concat_rows [OF assms(1)] concat_batches)
  moreover have "length (pred_labels r) = length (pred_probs r)"
    by (simp add: facts(4) threshold_predictions_def)
  ultimately show ?thesis by (simp add: facts(2))
qed

theorem prediction_result_lengths_agree_witness:
  "(\<forall>batch. length (map (\<lambda>t. (1 :: real, 0 :: real)) (batch :: string list)) = length batch)
   \<and> predict_with_probabilities (\<lambda>p. p = ''w.pt'') (map (\<lambda>t. (1, 0))) ''w.pt''
        [(''es'', [\<lparr>row_text = ''hola'', row_label = 0\<rparr>, \<lparr>row_text = ''tonto'', row_label = 1\<rparr>,
                   \<lparr>row_text = ''adios'', row_label = 0\<rparr>]),
         (''fr'', [])] 1 (1 / 2)
       = Inr [(''es'', \<lparr>true_labels = [0, 1, 0], pred_labels = [0, 0, 0],
                        pred_probs = [(exp 1 / (exp 1 + 1), 1 / (exp 1 + 1)),
                                      (exp 1 / (exp 1 + 1), 1 / (exp 1 + 1)),
                                      (exp 1 / (exp 1 + 1), 1 / (exp 1 + 1))]\<rparr>),
              (''fr'', \<lparr>true_labels = [], pred_labels = [], pred_probs = []\<rparr>)]
   \<and> length [0, 1, 0 :: int] = length [0, 0, 0 :: int]"
proof -
  let ?p = "(exp 1 / (exp 1 + 1), 1 / (exp 1 + 1)) :: real \<times> real"
  let ?R = "\<lparr>true_labels = [0, 1, 0], pred_labels = [0, 0, 0], pred_probs = [?p, ?p, ?p]\<rparr>"
  let ?res = "[(''es'', ?R), (''fr'', \<lparr>true_labels = [], pred_labels = [], pred_probs = []\<rparr>)]"
  have rows: "\<forall>batch. length (map (\<lambda>t. (1 :: real, 0 :: real)) (batch :: string list)) = length batch"
    by simp
  have small: "1 / (exp 1 + 1) \<le> (1 / 2 :: real)"
    using exp_ge_add_one_self [of "1 :: real"] by (simp add: field_simps)
  have run: "predict_with_probabilities (\<lambda>p. p = ''w.pt'') (map (\<lambda>t. (1, 0))) ''w.pt''
        [(''es'', [\<lparr>row_text = ''hola'', row_label = 0\<rparr>, \<lparr>row_text = ''tonto'', row_label = 1\<rparr>,
                   \<lparr>row_text = ''adios'', row_label = 0\<rparr>]),
         (''fr'', [])] 1 (1 / 2) = Inr ?res"
    using small greater_float32_one_half [of "1 / (exp 1 + 1)"]
    by (simp add: predict_with_probabilities_def predict_language_def DataLoader_def
          batches.simps predict_batch_def softmax_def threshold_predictions_def)
  have mem: "(''es'', ?R) \<in> set ?res" by simp
  from prediction_result_lengths_agree [OF rows run mem]
  have "length (true_labels ?R) = length (pred_labels ?R)" by blast
  with rows run show ?thesis by simp
qed


section \<open>Properties of the Failure Extractor\<close>

text \<open>
  An invariant of the scan: what holds of the records collected so far, and of the record
  built at every misclassified row, holds of the two lists the loop returns.
\<close>

lemma collect_failures_invariant:
  assumes "collect_failures ts i rest acc = Inr acc'"
      and "\<forall>f \<in> set (fst acc). A f" and "\<forall>f \<in> set (snd acc). B f"
      and step: "\<And>j. j < length rest \<Longrightarrow> i + j < length ts
                   \<Longrightarrow> fst (rest ! j) \<noteq> fst (snd (rest ! j))
                   \<Longrightarrow> (if fst (rest ! j) = 0 then A else B) (failure_record ts (i + j) (rest ! j))"
  shows "(\<forall>f \<in> set (fst acc'). A f) \<and> (\<forall>f \<in> set (snd acc'). B f)"
  using assms
proof (induction rest arbitrary: i acc)
  case Nil
  then show ?case by simp
next
  case (Cons z rest)
  have step': "(if fst (rest ! j) = 0 then A else B) (failure_record ts (Suc i + j) (rest ! j))"
    if "j < length rest" "Suc i + j < length ts" "fst (rest ! j) \<noteq> fst (snd (rest ! j))" for j
    using Cons.prems(4) [of "Suc j"] that by simp
  show ?case
  proof (cases "fst z \<noteq> fst (snd z)")
    case False
    with Cons.prems(1) have "collect_failures ts (Suc i) rest acc = Inr acc'" by simp
    from Cons.IH [OF this Cons.prems(2,3) step'] show ?thesis by simp
  next
    case True
    with Cons.prems(1) have i: "i < length ts" by (simp split: if_splits)
    from Cons.prems(4) [of 0] True i
    have here: "(if fst z = 0 then A else B) (failure_record ts i z)" by simp
    show ?thesis
    proof (cases "fst z = 0")
      case zero: True
      with True i Cons.prems(1)
      have run: "collect_failures ts (Suc i) rest (fst acc @ [failure_record ts i z], snd acc)
                   = Inr acc'" by simp
      have "\<forall>f \<in> set (fst (fst acc @ [failure_record ts i z], snd acc)). A f"
        using Cons.prems(2) here zero by simp
      moreover have "\<forall>f \<in> set (snd (fst acc @ [failure_record ts i z], snd acc)). B f"
        using Cons.prems(3) by simp
      ultimately show ?thesis using Cons.IH [OF run _ _ step'] by blast
    next
      case nonzero: False
      with True i Cons.prems(1)
      have run: "collect_failures ts (Suc i) rest (fst acc, snd acc @ [failure_record ts i z])
                   = Inr acc'" by simp
      have "\<forall>f \<in> set (fst (fst acc, snd acc @ [failure_record ts i z])). A f"
        using Cons.prems(2) by simp
      moreover have "\<forall>f \<in> set (snd (fst acc, snd acc @ [failure_record ts i z])). B f"
        using Cons.prems(3) here nonzero by simp
      ultimately show ?thesis using Cons.IH [OF run _ _ step'] by blast
    qed
  qed
qed

lemma sorted_reverse_sorted:
  "sorted_wrt (\<lambda>a b. key a \<ge> key b) (sorted_reverse key xs)"
proof -
  have "sorted (map key (sort_key key (rev xs)))" by simp
  then have "sorted_wrt (\<lambda>a b. key a \<le> key b) (sort_key key (rev xs))"
    by (simp add: sorted_wrt_map)
  then show ?thesis by (simp add: sorted_reverse_def sorted_wrt_rev)
qed

lemma set_sorted_reverse: "set (sorted_reverse key xs) = set xs"
  by (simp add: sorted_reverse_def)

lemma set_slice_to: "set (slice_to xs k) \<subseteq> set xs"
  by (simp add: slice_to_def set_take_subset)

lemma sorted_wrt_slice_to: "sorted_wrt P xs \<Longrightarrow> sorted_wrt P (slice_to xs k)"
  by (simp add: slice_to_def)

lemma length_slice_to: "0 \<le> k \<Longrightarrow> length (slice_to xs k) \<le> nat k"
  by (simp add: slice_to_def)

lemma find_top_failures_loop_entries:
  assumes "find_top_failures_loop ds ms k acc = Inr out"
      and "(lang, categories) \<in> set out"
  shows "(lang, categories) \<in> set acc \<or>
         (\<exists>test_set. (lang, test_set) \<in> set ds
             \<and> language_top_failures ms lang test_set k = Inr categories)"
  using assms
proof (induction ds arbitrary: acc)
  case Nil
  then show ?case by simp
next
  case (Cons p ds)
  obtain l test_set where p: "p = (l, test_set)" by (cases p)
  from Cons.prems(1) p obtain cats where
    cats: "language_top_failures ms l test_set k = Inr cats"
    and rest: "find_top_failures_loop ds ms k (AList.update l cats acc) = Inr out"
    by (auto split: sum.splits)
  from Cons.IH [OF rest Cons.prems(2)]
  show ?case
  proof
    assume "(lang, categories) \<in> set (AList.update l cats acc)"
    with set_update_subset [of l cats acc]
    have "(lang, categories) = (l, cats) \<or> (lang, categories) \<in> set acc" by auto
    with cats p show ?thesis by auto
  next
    assume "\<exists>test_set. (lang, test_set) \<in> set ds
             \<and> language_top_failures ms lang test_set k = Inr categories"
    then show ?thesis by auto
  qed
qed


lemma language_top_failures_Inr:
  assumes "language_top_failures ms lang ts k = Inr categories"
  shows "\<exists>m failures. map_of ms lang = Some m
           \<and> collect_failures ts 0 (zip (true_labels m) (zip (pred_labels m) (pred_probs m)))
                 ([], []) = Inr failures
           \<and> categories =
               [(''False TOXIC'', slice_to (sorted_reverse confidence (fst failures)) k),
                (''False NON-TOXIC'', slice_to (sorted_reverse confidence (snd failures)) k)]"
  using assms
  by (auto simp: language_top_failures_def TOXIC_def NON_TOXIC_def
           split: option.splits sum.splits)

text \<open>
  The function returns when every language of the corpus has an entry of predictions that
  is not longer than its data frame.
\<close>

lemma collect_failures_returns:
  assumes "i + length zs \<le> length test_set"
  shows "\<exists>failures. collect_failures test_set i zs acc = Inr failures"
  using assms by (induction zs arbitrary: i acc) auto

lemma find_top_failures_loop_returns:
  assumes "\<forall>(lang, test_set) \<in> set ds.
             \<exists>m. map_of ms lang = Some m \<and> length (true_labels m) \<le> length test_set"
  shows "\<exists>out. find_top_failures_loop ds ms k acc = Inr out"
  using assms
proof (induction ds arbitrary: acc)
  case Nil
  show ?case by simp
next
  case (Cons p ds)
  obtain lang test_set where p: "p = (lang, test_set)" by (cases p)
  with Cons.prems obtain m where m: "map_of ms lang = Some m"
    and len: "length (true_labels m) \<le> length test_set" by auto
  let ?zs = "zip (true_labels m) (zip (pred_labels m) (pred_probs m))"
  from len have "0 + length ?zs \<le> length test_set" by simp
  from collect_failures_returns [OF this] obtain failures where
    "collect_failures test_set 0 ?zs ([], []) = Inr failures" by blast
  with m obtain cats where "language_top_failures ms lang test_set k = Inr cats"
    by (simp add: language_top_failures_def)
  moreover from Cons.prems have "\<forall>(lang, test_set) \<in> set ds.
             \<exists>m. map_of ms lang = Some m \<and> length (true_labels m) \<le> length test_set" by simp
  from Cons.IH [OF this, of "AList.update lang cats acc"] obtain out where
    "find_top_failures_loop ds ms k (AList.update lang cats acc) = Inr out" by blast
  ultimately show ?case using p by simp
qed

text \<open>
  Claim C2. For every language of the output of \<^verbatim>\<open>find_top_failures\<close>: every record of
  the list \<^verbatim>\<open>'False TOXIC'\<close> has true label 0 and predicted label 1, every record of the list
  \<^verbatim>\<open>'False NON-TOXIC'\<close> has true label 1 and predicted label 0; every record is built
  from one row of the language, its confidence being the maximum of the two components of
  the row's probabilities; the confidences of each list are in non-increasing order; and
  each list has at most \<open>K\<close> records. Labels are those of the data model, 0 or 1, and \<open>K\<close>
  is a count, not negative.
\<close>

theorem find_top_failures_lists:
  assumes "find_top_failures dataset_by_language matches_by_language top_failures = Inr out"
      and "(lang, categories) \<in> set out"
      and "\<forall>(l, m) \<in> set matches_by_language.
              set (true_labels m) \<subseteq> {0, 1} \<and> set (pred_labels m) \<subseteq> {0, 1}"
      and "0 \<le> top_failures"
  shows "\<exists>false_toxic false_nontoxic test_set m.
           categories = [(''False TOXIC'', false_toxic), (''False NON-TOXIC'', false_nontoxic)]
         \<and> (lang, test_set) \<in> set dataset_by_language
         \<and> map_of matches_by_language lang = Some m
         \<and> (\<forall>f \<in> set false_toxic. true_label f = 0 \<and> pred_label f = 1)
         \<and> (\<forall>f \<in> set false_nontoxic. true_label f = 1 \<and> pred_label f = 0)
         \<and> (\<forall>f \<in> set false_toxic \<union> set false_nontoxic.
               \<exists>i < length (pred_probs m).
                 i < length (true_labels m) \<and> i < length (pred_labels m) \<and> i < length test_set
                 \<and> true_label f = true_labels m ! i \<and> pred_label f = pred_labels m ! i
                 \<and> confidence f = max (fst (pred_probs m ! i)) (snd (pred_probs m ! i))
                 \<and> failure_text f = row_text (test_set ! i))
         \<and> sorted_wrt (\<ge>) (map confidence false_toxic)
         \<and> sorted_wrt (\<ge>) (map confidence false_nontoxic)
         \<and> length false_toxic \<le> nat top_failures
         \<and> length false_nontoxic \<le> nat top_failures"
proof -
  from find_top_failures_loop_entries [of dataset_by_language matches_by_language top_failures
         "[]" out lang categories] assms(1,2)
  obtain test_set where
    ts: "(lang, test_set) \<in> set dataset_by_language"
    and lt: "language_top_failures matches_by_language lang test_set top_failures = Inr categories"
    by (auto simp: find_top_failures_def)
  from language_top_failures_Inr [OF lt] obtain m failures where
    m: "map_of matches_by_language lang = Some m"
    and cf: "collect_failures test_set 0
               (zip (true_labels m) (zip (pred_labels m) (pred_probs m))) ([], []) = Inr failures"
    and cats: "categories =
               [(''False TOXIC'', slice_to (sorted_reverse confidence (fst failures)) top_failures),
                (''False NON-TOXIC'', slice_to (sorted_reverse confidence (snd failures)) top_failures)]"
    by blast
  let ?zs = "zip (true_labels m) (zip (pred_labels m) (pred_probs m))"
  let ?row = "\<lambda>f. \<exists>i < length (pred_probs m).
                 i < length (true_labels m) \<and> i < length (pred_labels m) \<and> i < length test_set
                 \<and> true_label f = true_labels m ! i \<and> pred_label f = pred_labels m ! i
                 \<and> confidence f = max (fst (pred_probs m ! i)) (snd (pred_probs m ! i))
                 \<and> failure_text f = row_text (test_set ! i)"
  let ?A = "\<lambda>f. true_label f = 0 \<and> pred_label f = 1 \<and> ?row f"
  let ?B = "\<lambda>f. true_label f = 1 \<and> pred_label f = 0 \<and> ?row f"
  from m have "(lang, m) \<in> set matches_by_language" by (rule map_of_SomeD)
  with assms(3) have bin: "set (true_labels m) \<subseteq> {0, 1}" "set (pred_labels m) \<subseteq> {0, 1}"
    by auto
  have step: "(if fst (?zs ! j) = 0 then ?A else ?B) (failure_record test_set (0 + j) (?zs ! j))"
    if j: "j < length ?zs" and jt: "0 + j < length test_set"
      and ne: "fst (?zs ! j) \<noteq> fst (snd (?zs ! j))" for j
  proof -
    from j have lens: "j < length (true_labels m)" "j < length (pred_labels m)"
      "j < length (pred_probs m)" by simp_all
    then have zj: "?zs ! j = (true_labels m ! j, pred_labels m ! j, pred_probs m ! j)" by simp
    from lens bin have "true_labels m ! j \<in> {0, 1}" "pred_labels m ! j \<in> {0, 1}"
      using nth_mem by blast+
    with ne zj have labels: "(true_labels m ! j = 0 \<and> pred_labels m ! j = 1)
                           \<or> (true_labels m ! j = 1 \<and> pred_labels m ! j = 0)" by auto
    have "?row (failure_record test_set j (?zs ! j))"
      using lens jt by (intro exI [of _ j]) (simp add: zj failure_record_def)
    with labels show ?thesis by (auto simp: zj failure_record_def)
  qed
  have "(\<forall>f \<in> set (fst failures). ?A f) \<and> (\<forall>f \<in> set (snd failures). ?B f)"
    by (rule collect_failures_invariant [of test_set 0 ?zs "([], [])" failures ?A ?B])
       (rule cf, simp, simp, erule (2) step)
  then have inv: "\<forall>f \<in> set (fst failures). ?A f" "\<forall>f \<in> set (snd failures). ?B f"
    by blast+
  let ?ft = "slice_to (sorted_reverse confidence (fst failures)) top_failures"
  let ?fnt = "slice_to (sorted_reverse confidence (snd failures)) top_failures"
  have sub: "set ?ft \<subseteq> set (fst failures)" "set ?fnt \<subseteq> set (snd failures)"
    using set_slice_to [of "sorted_reverse confidence (fst failures)" top_failures]
          set_slice_to [of "sorted_reverse confidence (snd failures)" top_failures]
    by (simp_all add: set_sorted_reverse)
  have A: "\<forall>f \<in> set ?ft. true_label f = 0 \<and> pred_label f = 1"
    and B: "\<forall>f \<in> set ?fnt. true_label f = 1 \<and> pred_label f = 0"
    and R: "\<forall>f \<in> set ?ft \<union> set ?fnt. ?row f"
    using inv sub by blast+
  have S: "sorted_wrt (\<ge>) (map confidence ?ft)" "sorted_wrt (\<ge>) (map confidence ?fnt)"
    by (simp_all add: sorted_wrt_map sorted_wrt_slice_to sorted_reverse_sorted)
  have L: "length ?ft \<le> nat top_failures" "length ?fnt \<le> nat top_failures"
    using assms(4) by (simp_all add: length_slice_to)
  show ?thesis
    using cats ts m A B R S L by blast
qed


theorem find_top_failures_lists_witness:
  "find_top_failures
      [(''en'', [\<lparr>row_text = ''a'', row_label = 0\<rparr>, \<lparr>row_text = ''b'', row_label = 1\<rparr>,
                 \<lparr>row_text = ''c'', row_label = 1\<rparr>, \<lparr>row_text = ''d'', row_label = 0\<rparr>,
                 \<lparr>row_text = ''e'', row_label = 0\<rparr>])]
      [(''en'', \<lparr>true_labels = [0, 1, 1, 0, 0], pred_labels = [1, 0, 1, 1, 1],
                 pred_probs = [(0.4, 0.6), (0.7, 0.3), (0.1, 0.9), (0.2, 0.8), (0.4, 0.6)]\<rparr>)] 2
     = Inr [(''en'',
             [(''False TOXIC'',
                 [\<lparr>true_label = 0, pred_label = 1, confidence = 4 / 5, failure_text = ''d''\<rparr>,
                  \<lparr>true_label = 0, pred_label = 1, confidence = 3 / 5, failure_text = ''a''\<rparr>]),
              (''False NON-TOXIC'',
                 [\<lparr>true_label = 1, pred_label = 0, confidence = 7 / 10, failure_text = ''b''\<rparr>])])]
   \<and> sorted_wrt (\<ge>) (map confidence
        [\<lparr>true_label = 0, pred_label = 1, confidence = 4 / 5, failure_text = ''d''\<rparr>,
         \<lparr>true_label = 0, pred_label = 1, confidence = 3 / 5, failure_text = ''a''\<rparr>])
   \<and> length [\<lparr>true_label = 0, pred_label = 1, confidence = 4 / 5, failure_text = ''d''\<rparr>,
              \<lparr>true_label = 0, pred_label = 1, confidence = 3 / 5, failure_text = ''a''\<rparr>]
        \<le> nat 2"
proof -
  let ?ds = "[(''en'', [\<lparr>row_text = ''a'', row_label = 0\<rparr>, \<lparr>row_text = ''b'', row_label = 1\<rparr>,
                 \<lparr>row_text = ''c'', row_label = 1\<rparr>, \<lparr>row_text = ''d'', row_label = 0\<rparr>,
                 \<lparr>row_text = ''e'', row_label = 0\<rparr>])]"
  let ?ms = "[(''en'', \<lparr>true_labels = [0, 1, 1, 0, 0], pred_labels = [1, 0, 1, 1, 1],
                 pred_probs = [(0.4, 0.6), (0.7, 0.3), (0.1, 0.9), (0.2, 0.8), (0.4, 0.6)]\<rparr>)]"
  let ?ft = "[\<lparr>true_label = 0, pred_label = 1, confidence = 4 / 5, failure_text = ''d''\<rparr>,
              \<lparr>true_label = 0, pred_label = 1, confidence = 3 / 5, failure_text = ''a''\<rparr>]"
  let ?fnt = "[\<lparr>true_label = 1, pred_label = 0, confidence = 7 / 10, failure_text = ''b''\<rparr>]"
  let ?cats = "[(''False TOXIC'', ?ft), (''False NON-TOXIC'', ?fnt)]"
  have run: "find_top_failures ?ds ?ms 2 = Inr [(''en'', ?cats)]"
    by (simp add: find_top_failures_def language_top_failures_def failure_record_def
          sorted_reverse_def slice_to_def TOXIC_def NON_TOXIC_def)
  have mem: "(''en'', ?cats) \<in> set [(''en'', ?cats)]" by simp
  have bin: "\<forall>(l, m) \<in> set ?ms. set (true_labels m) \<subseteq> {0, 1} \<and> set (pred_labels m) \<subseteq> {0, 1}"
    by simp
  have k: "(0 :: int) \<le> 2" by simp
  from find_top_failures_lists [OF run mem bin k] obtain false_toxic false_nontoxic where
    eq: "?cats = [(''False TOXIC'', false_toxic), (''False NON-TOXIC'', false_nontoxic)]"
    and props: "sorted_wrt (\<ge>) (map confidence false_toxic)"
               "length false_toxic \<le> nat 2"
    by blast
  from eq have "false_toxic = ?ft" by simp
  with props run show ?thesis by blast
qed


section \<open>Properties of the Confusion Matrix Reporter\<close>

lemma length_update:
  "length (AList.update k v al) = (if k \<in> fst ` set al then length al else Suc (length al))"
  by (induction al) auto

lemma fold_pool_labels:
  "fold (\<lambda>(lang, labels) total.
             total\<lparr>true_labels := true_labels total @ true_labels labels,
                   pred_labels := pred_labels total @ pred_labels labels\<rparr>) d acc
     = acc\<lparr>true_labels := true_labels acc @ concat (map (\<lambda>(lang, labels). true_labels labels) d),
            pred_labels := pred_labels acc @ concat (map (\<lambda>(lang, labels). pred_labels labels) d)\<rparr>"
  by (induction d arbitrary: acc) (auto simp: case_prod_beta)

lemma pool_labels_concat:
  "true_labels (pool_labels d) = concat (map (\<lambda>(lang, labels). true_labels labels) d)"
  "pred_labels (pool_labels d) = concat (map (\<lambda>(lang, labels). pred_labels labels) d)"
  by (simp_all add: pool_labels_def fold_pool_labels)

lemma pooled_lengths_agree:
  assumes "\<forall>(lang, labels) \<in> set d. length (true_labels labels) = length (pred_labels labels)"
  shows "length (true_labels (pool_labels d)) = length (pred_labels (pool_labels d))"
  using assms by (induction d) (auto simp: pool_labels_concat)

text \<open>
  Claim C4, amended. The entry count that \<^verbatim>\<open>show_confusion_matrix\<close> asserts is the one
  of the dictionary in which the key \<^verbatim>\<open>"all languages"\<close> has been set to the pooled
  entry: the function returns only for an input of 3 entries none of which is keyed
  \<^verbatim>\<open>"all languages"\<close>, or of 4 entries one of which is; for every other input it raises
  an assertion error. In particular, among the inputs with no language named
  \<^verbatim>\<open>"all languages"\<close>, every input whose number of entries is not 3 raises an assertion
  error.
\<close>

theorem show_confusion_matrix_entry_count:
  "(show_confusion_matrix d = Inr panels \<longrightarrow>
      (length d = 3 \<and> ''all languages'' \<notin> fst ` set d)
      \<or> (length d = 4 \<and> ''all languages'' \<in> fst ` set d))
   \<and> (\<not> ((length d = 3 \<and> ''all languages'' \<notin> fst ` set d)
          \<or> (length d = 4 \<and> ''all languages'' \<in> fst ` set d)) \<longrightarrow>
      (\<exists>msg. show_confusion_matrix d = Inl (AssertionError msg)))
   \<and> (''all languages'' \<notin> fst ` set d \<longrightarrow> length d \<noteq> 3 \<longrightarrow>
      (\<exists>msg. show_confusion_matrix d = Inl (AssertionError msg)))"
  by (auto simp: show_confusion_matrix_def Let_def length_update split: if_splits)

text \<open>
  Claim C6. The pooled sequences are the concatenations of the per-language sequences.
  \<^verbatim>\<open>show_confusion_matrix\<close> raises its first assertion error whenever the pooled
  true-label sequence and the pooled predicted-label sequence have different lengths, and
  the check passes whenever the two sequences of every language have the same length.
\<close>

theorem show_confusion_matrix_pooled_lengths:
  "true_labels (pool_labels d) = concat (map (\<lambda>(lang, labels). true_labels labels) d)
   \<and> pred_labels (pool_labels d) = concat (map (\<lambda>(lang, labels). pred_labels labels) d)
   \<and> (length (true_labels (pool_labels d)) \<noteq> length (pred_labels (pool_labels d)) \<longrightarrow>
        show_confusion_matrix d
          = Inl (AssertionError ''Expected true and pred labels to have the same size. ''))
   \<and> ((\<forall>(lang, labels) \<in> set d. length (true_labels labels) = length (pred_labels labels)) \<longrightarrow>
        length (true_labels (pool_labels d)) = length (pred_labels (pool_labels d))
        \<and> show_confusion_matrix d
          \<noteq> Inl (AssertionError ''Expected true and pred labels to have the same size. ''))"
proof -
  have draw: "draw_panels xs \<noteq> Inl (AssertionError msg)" for xs msg
    by (induction xs)
       (auto simp: draw_panel_def confusion_matrix_def Let_def split: sum.splits if_splits)
  have "show_confusion_matrix d
          \<noteq> Inl (AssertionError ''Expected true and pred labels to have the same size. '')"
    if "length (true_labels (pool_labels d)) = length (pred_labels (pool_labels d))"
    using that draw by (simp add: show_confusion_matrix_def Let_def)
  then show ?thesis
    using pooled_lengths_agree [of d]
    by (simp add: pool_labels_concat [symmetric] show_confusion_matrix_def Let_def)
qed


theorem show_confusion_matrix_entry_count_witness:
  "show_confusion_matrix
      [(''en'', \<lparr>true_labels = [0, 1], pred_labels = [0, 1], pred_probs = []\<rparr>),
       (''es'', \<lparr>true_labels = [0, 1], pred_labels = [1, 1], pred_probs = []\<rparr>),
       (''fr'', \<lparr>true_labels = [1, 0], pred_labels = [1, 0], pred_probs = []\<rparr>)]
     = Inr [\<lparr>cm_title = ''en'', cm_percent = [[100, 0], [0, 100]], cm_accuracy = Some 100\<rparr>,
            \<lparr>cm_title = ''es'', cm_percent = [[0, 100], [0, 100]], cm_accuracy = Some 50\<rparr>,
            \<lparr>cm_title = ''fr'', cm_percent = [[100, 0], [0, 100]], cm_accuracy = Some 100\<rparr>,
            \<lparr>cm_title = ''all languages'', cm_percent = [[200 / 3, 100 / 3], [0, 100]],
              cm_accuracy = Some (250 / 3)\<rparr>]
   \<and> (\<exists>msg. show_confusion_matrix
          [(''en'', \<lparr>true_labels = [0, 1], pred_labels = [0, 1], pred_probs = []\<rparr>),
           (''es'', \<lparr>true_labels = [0, 1], pred_labels = [1, 1], pred_probs = []\<rparr>)]
        = Inl (AssertionError msg))"
proof -
  let ?d2 = "[(''en'', \<lparr>true_labels = [0, 1], pred_labels = [0, 1], pred_probs = []\<rparr>),
              (''es'', \<lparr>true_labels = [0, 1], pred_labels = [1, 1], pred_probs = []\<rparr>)]"
  have "''all languages'' \<notin> fst ` set ?d2" and "length ?d2 \<noteq> 3" by simp_all
  with show_confusion_matrix_entry_count [of ?d2]
  have "\<exists>msg. show_confusion_matrix ?d2 = Inl (AssertionError msg)" by blast
  then show ?thesis
    by (simp add: show_confusion_matrix_def pool_labels_def confusion_matrix_def
          draw_panel_def accuracy_def)
qed

text \<open>
  Claim C4 as stated fails on an input of four entries, one of them keyed
  \<^verbatim>\<open>"all languages"\<close>: the pooled entry replaces it, four entries are counted and the
  four panels are drawn.
\<close>

theorem show_confusion_matrix_four_entries_counterexample:
  "length [(''en'', \<lparr>true_labels = [0, 1], pred_labels = [0, 1], pred_probs = []\<rparr>),
           (''es'', \<lparr>true_labels = [0, 1], pred_labels = [0, 1], pred_probs = []\<rparr>),
           (''fr'', \<lparr>true_labels = [1, 0], pred_labels = [1, 0], pred_probs = []\<rparr>),
           (''all languages'', \<lparr>true_labels = [1], pred_labels = [1], pred_probs = []\<rparr>)] \<noteq> 3
   \<and> show_confusion_matrix
        [(''en'', \<lparr>true_labels = [0, 1], pred_labels = [0, 1], pred_probs = []\<rparr>),
         (''es'', \<lparr>true_labels = [0, 1], pred_labels = [0, 1], pred_probs = []\<rparr>),
         (''fr'', \<lparr>true_labels = [1, 0], pred_labels = [1, 0], pred_probs = []\<rparr>),
         (''all languages'', \<lparr>true_labels = [1], pred_labels = [1], pred_probs = []\<rparr>)]
     = Inr [\<lparr>cm_title = ''en'', cm_percent = [[100, 0], [0, 100]], cm_accuracy = Some 100\<rparr>,
            \<lparr>cm_title = ''es'', cm_percent = [[100, 0], [0, 100]], cm_accuracy = Some 100\<rparr>,
            \<lparr>cm_title = ''fr'', cm_percent = [[100, 0], [0, 100]], cm_accuracy = Some 100\<rparr>,
            \<lparr>cm_title = ''all languages'', cm_percent = [[100, 0], [0, 100]],
              cm_accuracy = Some 100\<rparr>]"
  by (simp add: show_confusion_matrix_def pool_labels_def confusion_matrix_def
        draw_panel_def accuracy_def)

theorem show_confusion_matrix_pooled_lengths_witness:
  "show_confusion_matrix
      [(''en'', \<lparr>true_labels = [0, 1], pred_labels = [0], pred_probs = []\<rparr>),
       (''es'', \<lparr>true_labels = [0, 1], pred_labels = [1, 1], pred_probs = []\<rparr>),
       (''fr'', \<lparr>true_labels = [1, 0], pred_labels = [1, 0], pred_probs = []\<rparr>)]
     = Inl (AssertionError ''Expected true and pred labels to have the same size. '')
   \<and> length (true_labels (pool_labels
        [(''en'', \<lparr>true_labels = [0, 1], pred_labels = [0, 0], pred_probs = []\<rparr>),
         (''de'', \<lparr>true_labels = [1], pred_labels = [1], pred_probs = []\<rparr>)]))
     = length (pred_labels (pool_labels
        [(''en'', \<lparr>true_labels = [0, 1], pred_labels = [0, 0], pred_probs = []\<rparr>),
         (''de'', \<lparr>true_labels = [1], pred_labels = [1], pred_probs = []\<rparr>)]))"
proof -
  let ?bad = "[(''en'', \<lparr>true_labels = [0, 1], pred_labels = [0], pred_probs = []\<rparr>),
       (''es'', \<lparr>true_labels = [0, 1], pred_labels = [1, 1], pred_probs = []\<rparr>),
       (''fr'', \<lparr>true_labels = [1, 0], pred_labels = [1, 0], pred_probs = []\<rparr>)]"
  let ?good = "[(''en'', \<lparr>true_labels = [0, 1], pred_labels = [0, 0], pred_probs = []\<rparr>),
         (''de'', \<lparr>true_labels = [1], pred_labels = [1], pred_probs = []\<rparr>)]"
  have "length (true_labels (pool_labels ?bad)) \<noteq> length (pred_labels (pool_labels ?bad))"
    by (simp add: pool_labels_def)
  with show_confusion_matrix_pooled_lengths [of ?bad]
  have bad: "show_confusion_matrix ?bad
          = Inl (AssertionError ''Expected true and pred labels to have the same size. '')"
    by blast
  have "\<forall>(lang, labels) \<in> set ?good. length (true_labels labels) = length (pred_labels labels)"
    by simp
  with show_confusion_matrix_pooled_lengths [of ?good]
  have "length (true_labels (pool_labels ?good)) = length (pred_labels (pool_labels ?good))"
    by blast
  with bad show ?thesis by blast
qed


section \<open>Properties of the Precision-Recall Analyzer\<close>

text \<open>
  The scan of \<open>argmax_from\<close> returns the first index of the greatest value: no value is
  greater than the one at the result, and every value before it is strictly smaller.
\<close>

lemma argmax_from_spec:
  "(argmax_from best v i xs = best \<and> (\<forall>x \<in> set xs. x \<le> v))
   \<or> (i \<le> argmax_from best v i xs \<and> argmax_from best v i xs < i + length xs
       \<and> v < xs ! (argmax_from best v i xs - i)
       \<and> (\<forall>x \<in> set xs. x \<le> xs ! (argmax_from best v i xs - i))
       \<and> (\<forall>j < argmax_from best v i xs - i. xs ! j < xs ! (argmax_from best v i xs - i)))"
proof (induction xs arbitrary: best v i)
  case Nil
  then show ?case by simp
next
  case (Cons x xs)
  show ?case
  proof (cases "v < x")
    case True
    let ?r = "argmax_from i x (Suc i) xs"
    from Cons.IH [of i x "Suc i"]
    consider (stay) "?r = i" "\<forall>y \<in> set xs. y \<le> x"
      | (move) "Suc i \<le> ?r" "?r < Suc i + length xs" "x < xs ! (?r - Suc i)"
          "\<forall>y \<in> set xs. y \<le> xs ! (?r - Suc i)" "\<forall>j < ?r - Suc i. xs ! j < xs ! (?r - Suc i)"
      by blast
    then show ?thesis
    proof cases
      case stay
      with True show ?thesis by auto
    next
      case move
      from move(1) have idx: "(x # xs) ! (?r - i) = xs ! (?r - Suc i)"
        by (simp add: nth_Cons')
      have "\<forall>j < ?r - i. (x # xs) ! j < xs ! (?r - Suc i)"
      proof (intro allI impI)
        fix j assume "j < ?r - i"
        then show "(x # xs) ! j < xs ! (?r - Suc i)"
          using move(3,5) by (cases j) auto
      qed
      with True move idx show ?thesis by auto
    qed
  next
    case False
    let ?r = "argmax_from best v (Suc i) xs"
    from Cons.IH [of best v "Suc i"]
    consider (stay) "?r = best" "\<forall>y \<in> set xs. y \<le> v"
      | (move) "Suc i \<le> ?r" "?r < Suc i + length xs" "v < xs ! (?r - Suc i)"
          "\<forall>y \<in> set xs. y \<le> xs ! (?r - Suc i)" "\<forall>j < ?r - Suc i. xs ! j < xs ! (?r - Suc i)"
      by blast
    then show ?thesis
    proof cases
      case stay
      with False show ?thesis by auto
    next
      case move
      from move(1) have idx: "(x # xs) ! (?r - i) = xs ! (?r - Suc i)"
        by (simp add: nth_Cons')
      have "\<forall>j < ?r - i. (x # xs) ! j < xs ! (?r - Suc i)"
      proof (intro allI impI)
        fix j assume "j < ?r - i"
        then show "(x # xs) ! j < xs ! (?r - Suc i)"
          using move(3,5) False by (cases j) auto
      qed
      with False move idx show ?thesis by auto
    qed
  qed
qed

lemma np_argmax_spec:
  assumes "np_argmax a = Inr r"
  shows "r < length a \<and> (\<forall>x \<in> set a. x \<le> a ! r) \<and> (\<forall>j < r. a ! j < a ! r)"
proof -
  from assms obtain x xs where a: "a = x # xs" and r: "r = argmax_from 0 x 1 xs"
    by (auto simp: np_argmax_def split: list.splits)
  from argmax_from_spec [of 0 x 1 xs, folded r]
  consider (first) "r = 0" "\<forall>y \<in> set xs. y \<le> x"
    | (later) "1 \<le> r" "r < 1 + length xs" "x < xs ! (r - 1)"
        "\<forall>y \<in> set xs. y \<le> xs ! (r - 1)" "\<forall>j < r - 1. xs ! j < xs ! (r - 1)"
    by blast
  then show ?thesis
  proof cases
    case first
    then show ?thesis by (simp add: a)
  next
    case later
    from later(1) have idx: "a ! r = xs ! (r - 1)" by (simp add: a nth_Cons')
    have "\<forall>j < r. a ! j < a ! r"
    proof (intro allI impI)
      fix j assume "j < r"
      then show "a ! j < a ! r"
        unfolding idx using later(3,5) by (cases j) (auto simp: a)
    qed
    moreover have "\<forall>y \<in> set a. y \<le> a ! r"
      unfolding idx using later(3,4) by (auto simp: a)
    moreover have "r < length a" using later(2) by (simp add: a)
    ultimately show ?thesis by blast
  qed
qed

lemma np_argmax_total: "a \<noteq> [] \<Longrightarrow> \<exists>r. np_argmax a = Inr r"
  by (cases a) (simp_all add: np_argmax_def)


lemma threshold_idxs_nonempty:
  assumes "y_score \<noteq> []"
  shows "threshold_idxs y_score \<noteq> []"
proof -
  from assms have "length y_score - 1 \<in> set (threshold_idxs y_score)"
    by (cases y_score) (auto simp: threshold_idxs_def)
  then show ?thesis by auto
qed

lemma labels_accepted_nonempty: "labels_accepted y_true \<Longrightarrow> y_true \<noteq> []"
  by (auto simp: labels_accepted_def)

lemma precision_recall_curve_shape:
  assumes "precision_recall_curve y_true probas_pred = Inr (p, r, t)"
  shows "\<exists>prec rec. p = prec @ [1] \<and> r = rec @ [0]
           \<and> length prec = length t \<and> length rec = length t \<and> t \<noteq> []
           \<and> (\<forall>x \<in> set prec. 0 \<le> x) \<and> (\<forall>x \<in> set rec. 0 \<le> x)"
proof -
  from assms have len: "length y_true = length probas_pred" and acc: "labels_accepted y_true"
    and few: "\<not> 2 < length (remdups y_true)"
    by (auto simp: precision_recall_curve_def split: if_splits)
  obtain fps tps thresholds where
    curve: "binary_clf_curve (zip y_true probas_pred) = (fps, tps, thresholds)"
    by (cases "binary_clf_curve (zip y_true probas_pred)")
  let ?idxs = "threshold_idxs (map snd (rev (sort_key snd (zip y_true probas_pred))))"
  from curve have lens: "length fps = length ?idxs" "length tps = length ?idxs"
    "length thresholds = length ?idxs"
    by (auto simp: binary_clf_curve_def Let_def)
  from labels_accepted_nonempty [OF acc] len have "zip y_true probas_pred \<noteq> []"
    by (cases y_true; cases probas_pred) auto
  then have "map snd (rev (sort_key snd (zip y_true probas_pred))) \<noteq> []"
    by (metis Nil_is_map_conv Nil_is_rev_conv length_0_conv length_sort)
  from threshold_idxs_nonempty [OF this] lens have ne: "thresholds \<noteq> []" by auto
  let ?prec = "map2 (\<lambda>tp fp. real tp / (real tp + real fp)) tps fps"
  let ?rec = "if last tps = 0 then map (\<lambda>tp. 1) tps
              else map (\<lambda>tp. real tp / real (last tps)) tps"
  from assms len acc few curve
  have out: "p = rev ?prec @ [1]" "r = rev ?rec @ [0]" "t = rev thresholds"
    by (auto simp: precision_recall_curve_def Let_def)
  have "\<forall>x \<in> set (rev ?prec). 0 \<le> x" by (auto simp: set_zip)
  moreover have "\<forall>x \<in> set (rev ?rec). 0 \<le> x" by auto
  moreover have "length (rev ?prec) = length t" "length (rev ?rec) = length t"
    using lens out(3) by auto
  moreover have "t \<noteq> []" using ne out(3) by simp
  ultimately show ?thesis using out(1,2) by blast
qed

lemma argmax_before_final_point:
  assumes shape: "p = prec @ [1]" "r = rec @ [0]" "length prec = length t" "length rec = length t"
      "t \<noteq> []" "\<forall>x \<in> set prec. 0 \<le> x" "\<forall>x \<in> set rec. (0 :: real) \<le> x"
    and arg: "np_argmax (map sqrt (map2 (\<lambda>p r. p * r) p r)) = Inr i"
  shows "i < length t"
proof -
  let ?a = "map sqrt (map2 (\<lambda>p r. p * r) p r)"
  let ?xs = "map sqrt (map2 (\<lambda>p r. p * r) prec rec)"
  have a: "?a = ?xs @ [0]" using shape(1-4) by simp
  have len: "length ?xs = length t" using shape(3,4) by simp
  have nonneg: "0 \<le> ?xs ! 0"
  proof -
    from shape(5) len have "?xs ! 0 \<in> set ?xs" by (intro nth_mem) simp
    then obtain u v where "(u, v) \<in> set (zip prec rec)" "?xs ! 0 = sqrt (u * v)" by auto
    moreover from this(1) have "u \<in> set prec" "v \<in> set rec"
      by (auto dest: set_zip_leftD set_zip_rightD)
    with shape(6,7) have "0 \<le> u * v" by simp
    ultimately show ?thesis by simp
  qed
  have la: "length ?a = Suc (length t)" using shape(1-4) by simp
  from np_argmax_spec [OF arg] have "i < length ?a" and first: "\<forall>j < i. ?a ! j < ?a ! i"
    by blast+
  then have i: "i < Suc (length t)" by (simp only: la)
  show ?thesis
  proof (rule ccontr)
    assume "\<not> i < length t"
    with i have eq: "i = length ?xs" by (simp only: len)
    have "?a ! i = (?xs @ [0]) ! length ?xs" by (simp only: a eq)
    then have "?a ! i = 0" by (simp only: nth_append_length)
    moreover from shape(5) len eq have "0 < i" by simp
    with first have "?a ! 0 < ?a ! i" by blast
    moreover have "?a ! 0 = ?xs ! 0"
    proof -
      from shape(5) len have "0 < length ?xs" by simp
      then have "(?xs @ [0]) ! 0 = ?xs ! 0" by (simp only: nth_append if_True)
      then show ?thesis by (simp only: a)
    qed
    ultimately show False using nonneg by simp
  qed
qed


lemma curve_argmax_in_bounds:
  assumes "precision_recall_curve ys ss = Inr (p, r, t)"
  shows "length p = Suc (length t) \<and> length r = Suc (length t)
        \<and> (\<exists>idx. np_argmax (map sqrt (map2 (\<lambda>p r. p * r) p r)) = Inr idx \<and> idx < length t)"
proof -
  from precision_recall_curve_shape [OF assms] obtain prec rec where
    shape: "p = prec @ [1]" "r = rec @ [0]" "length prec = length t" "length rec = length t"
      "t \<noteq> []" "\<forall>x \<in> set prec. 0 \<le> x" "\<forall>x \<in> set rec. 0 \<le> x"
    by blast
  from shape(1-4) have "map sqrt (map2 (\<lambda>p r. p * r) p r) \<noteq> []" by simp
  from np_argmax_total [OF this] obtain idx where
    idx: "np_argmax (map sqrt (map2 (\<lambda>p r. p * r) p r)) = Inr idx" by blast
  from argmax_before_final_point [OF shape idx] idx shape(1-4) show ?thesis by auto
qed

text \<open>
  The recall of the curve decreases along the sampled points, so the area is always
  computed: the function draws its figure whenever the library accepts the pooled
  labels and scores.
\<close>

lemma tps_at_mono: "i \<le> j \<Longrightarrow> tps_at S i \<le> tps_at S j"
proof -
  assume "i \<le> j"
  then have "take (Suc j) S = take (Suc i) S @ take (j - i) (drop (Suc i) S)"
    by (metis Suc_diff_le Suc_le_mono add_Suc diff_Suc_Suc le_add_diff_inverse take_add)
  then show ?thesis by (simp add: tps_at_def)
qed

lemma sorted_threshold_idxs: "sorted (threshold_idxs y_score)"
  unfolding threshold_idxs_def by (rule sorted_wrt_filter) simp

lemma sorted_tps: "sorted (map (tps_at S) (threshold_idxs y_score))"
proof -
  have "sorted_wrt (\<lambda>i j. tps_at S i \<le> tps_at S j) (threshold_idxs y_score)"
    using sorted_threshold_idxs [of y_score]
    by (rule sorted_wrt_mono_rel [rotated]) (simp add: tps_at_mono)
  then show ?thesis by (simp add: sorted_wrt_map)
qed

lemma np_diff_descending:
  assumes "sorted_wrt (\<lambda>a b. b \<le> a) x"
  shows "list_all (\<lambda>d. d \<le> 0) (np_diff x)"
  using assms
proof (induction x)
  case Nil
  show ?case by (simp add: np_diff_def)
next
  case (Cons a x)
  then show ?case by (cases x) (simp_all add: np_diff_def)
qed

lemma precision_recall_curve_recall_descending:
  assumes "precision_recall_curve y_true probas_pred = Inr (p, r, t)"
  shows "sorted_wrt (\<lambda>a b. b \<le> a) r"
proof -
  from assms have len: "length y_true = length probas_pred" and acc: "labels_accepted y_true"
    and few: "\<not> 2 < length (remdups y_true)"
    by (auto simp: precision_recall_curve_def split: if_splits)
  let ?S = "rev (sort_key snd (zip y_true probas_pred))"
  let ?tps = "map (tps_at ?S) (threshold_idxs (map snd ?S))"
  let ?rec = "if last ?tps = 0 then map (\<lambda>tp. 1) ?tps
              else map (\<lambda>tp. real tp / real (last ?tps)) ?tps"
  from assms len acc few have r: "r = rev ?rec @ [0]"
    by (auto simp: precision_recall_curve_def binary_clf_curve_def Let_def)
  have tps: "sorted ?tps" by (rule sorted_tps)
  have "sorted_wrt (\<lambda>a b. a \<le> b) ?rec"
  proof (cases "last ?tps = 0")
    case True
    then show ?thesis by (simp add: map_replicate_const)
  next
    case False
    have "sorted_wrt (\<lambda>a b. real a / real (last ?tps) \<le> real b / real (last ?tps)) ?tps"
      using tps by (rule sorted_wrt_mono_rel [rotated]) (simp add: divide_right_mono)
    then have "sorted_wrt (\<lambda>a b. a \<le> b) (map (\<lambda>tp. real tp / real (last ?tps)) ?tps)"
      by (simp only: sorted_wrt_map)
    with False show ?thesis by (simp only: if_False)
  qed
  then have "sorted_wrt (\<lambda>a b. b \<le> a) (rev ?rec)" by (simp only: sorted_wrt_rev)
  moreover have "\<forall>x \<in> set (rev ?rec). 0 \<le> x" by auto
  ultimately show ?thesis by (simp only: r sorted_wrt_append) auto
qed

lemma auc_of_curve_returns:
  assumes "precision_recall_curve y_true probas_pred = Inr (p, r, t)"
  shows "\<exists>area. auc r p = Inr area"
proof -
  from precision_recall_curve_shape [OF assms]
  have "length r = length p" and "\<not> length r < 2" by (auto simp: Suc_le_eq)
  moreover have "list_all (\<lambda>d. d \<le> 0) (np_diff r)"
    by (rule np_diff_descending [OF precision_recall_curve_recall_descending [OF assms]])
  ultimately show ?thesis by (simp add: auc_def)
qed

lemma plot_combined_returns:
  assumes "precision_recall_curve (fst (pool_scores d)) (snd (pool_scores d)) = Inr (p, r, t)"
  shows "\<exists>fig. plot_combined_precision_recall_curve d = Inr fig"
proof -
  from auc_of_curve_returns [OF assms] obtain area where area: "auc r p = Inr area" by blast
  from curve_argmax_in_bounds [OF assms]
  obtain idx where "np_argmax (map sqrt (map2 (\<lambda>p r. p * r) p r)) = Inr idx" "idx < length t"
    by blast
  with assms area show ?thesis
    by (simp add: plot_combined_precision_recall_curve_def case_prod_beta)
qed





text \<open>
  Claim C9. The index that maximizes \<open>sqrt (precision * recall)\<close> is a valid index into
  the thresholds, although precision and recall have one more point than there are
  thresholds: when the curve is computed, the maximizing index exists and is below the
  number of thresholds, and the function never raises \<^verbatim>\<open>IndexError\<close>. The last point
  has the value 0 and the values before it are not negative, so the first maximum is never
  the last point.
\<close>

theorem optimal_threshold_lookup_in_bounds:
  "plot_combined_precision_recall_curve results_by_lang \<noteq> Inl IndexError
   \<and> (precision_recall_curve y_true probas_pred = Inr (precision, recall, thresholds) \<longrightarrow>
        length precision = Suc (length thresholds)
        \<and> length recall = Suc (length thresholds)
        \<and> (\<exists>idx. np_argmax (map sqrt (map2 (\<lambda>p r. p * r) precision recall)) = Inr idx
                  \<and> idx < length thresholds))"
proof -
  note curve = curve_argmax_in_bounds
  have "plot_combined_precision_recall_curve results_by_lang \<noteq> Inl IndexError"
  proof -
    obtain ys ss where pool: "pool_scores results_by_lang = (ys, ss)"
      by (cases "pool_scores results_by_lang")
    show ?thesis
    proof (cases "precision_recall_curve ys ss")
      case (Inl e)
      then have "e \<noteq> IndexError"
        by (auto simp: precision_recall_curve_def Let_def split: if_splits prod.splits)
      with Inl pool show ?thesis by (simp add: plot_combined_precision_recall_curve_def)
    next
      case (Inr c)
      obtain p r t where c: "c = (p, r, t)" by (cases c)
      from curve [OF Inr [unfolded c]] obtain idx where
        idx: "np_argmax (map sqrt (map2 (\<lambda>p r. p * r) p r)) = Inr idx" "idx < length t"
        by blast
      have "auc r p \<noteq> Inl IndexError" by (auto simp: auc_def)
      with Inr c pool idx show ?thesis
        by (auto simp: plot_combined_precision_recall_curve_def split: sum.splits)
    qed
  qed
  with curve show ?thesis by blast
qed

theorem optimal_threshold_lookup_in_bounds_witness:
  "precision_recall_curve [1, 0, 1] [0.9, 0.4, 0.4]
     = Inr ([2 / 3, 1, 1], [1, 1 / 2, 0], [2 / 5, 9 / 10])
   \<and> (\<exists>idx. np_argmax (map sqrt (map2 (\<lambda>p r. p * r) [2 / 3, 1, 1] [1, 1 / 2, 0])) = Inr idx
          \<and> idx < length [2 / 5, 9 / 10 :: real])"
proof -
  have run: "precision_recall_curve [1, 0, 1] [0.9, 0.4, 0.4]
     = Inr ([2 / 3, 1, 1], [1, 1 / 2, 0], [2 / 5, 9 / 10])"
    by (simp add: precision_recall_curve_def labels_accepted_def binary_clf_curve_def
          threshold_idxs_def tps_at_def)
  with optimal_threshold_lookup_in_bounds
         [of "[]" "[1, 0, 1]" "[0.9, 0.4, 0.4]" "[2 / 3, 1, 1]" "[1, 1 / 2, 0]" "[2 / 5, 9 / 10]"]
  show ?thesis by blast
qed


section \<open>Pooling order and the precision-recall curve\<close>

text \<open>
  The curve depends on the samples only as a multiset: the sorted scores do, and at a
  threshold index, where the score changes, the samples up to the index are the samples
  whose score is at least the threshold.
\<close>

lemma map_snd_sort_key: "map snd (sort_key snd ps) = sort (map snd ps)"
  by (rule properties_for_sort [symmetric]) simp_all

lemma sort_cong_mset:
  assumes "mset xs = mset ys"
  shows "sort xs = sort ys"
  by (rule properties_for_sort) (simp_all add: assms)

lemma sorted_scores_cong:
  assumes "mset ps = mset ps'"
  shows "map snd (rev (sort_key snd ps)) = map snd (rev (sort_key snd ps'))"
proof -
  from assms have "mset (map snd ps) = mset (map snd ps')" by simp
  then have "sort (map snd ps) = sort (map snd ps')" by (rule sort_cong_mset)
  then show ?thesis by (simp add: rev_map [symmetric] map_snd_sort_key)
qed

lemma sorted_samples_descending:
  "sorted_wrt (\<lambda>a b. snd b \<le> snd a) (rev (sort_key snd ps))"
proof -
  have "sorted (map snd (sort_key snd ps))" by simp
  then have "sorted_wrt (\<lambda>a b. snd a \<le> snd b) (sort_key snd ps)"
    by (simp add: sorted_wrt_map)
  then show ?thesis by (simp add: sorted_wrt_rev)
qed

lemma take_at_score_change:
  fixes S :: "(int \<times> real) list"
  assumes sorted: "sorted_wrt (\<lambda>a b. snd b \<le> snd a) S"
      and i: "i < length S"
      and change: "Suc i = length S \<or> snd (S ! Suc i) \<noteq> snd (S ! i)"
  shows "take (Suc i) S = filter (\<lambda>s. snd (S ! i) \<le> snd s) S"
proof -
  have upper: "snd (S ! i) \<le> snd s" if "s \<in> set (take (Suc i) S)" for s
  proof -
    from that obtain j where j: "j < Suc i" "j < length S" "s = S ! j"
      by (auto simp: in_set_conv_nth)
    show ?thesis
    proof (cases "j = i")
      case True
      with j show ?thesis by simp
    next
      case False
      with j have "j < i" by simp
      from sorted_wrt_nth_less [OF sorted this i] j show ?thesis by simp
    qed
  qed
  have lower: "\<not> snd (S ! i) \<le> snd s" if "s \<in> set (drop (Suc i) S)" for s
  proof -
    from that obtain k where "k < length S - Suc i" "s = S ! (Suc i + k)"
      by (auto simp: in_set_conv_nth)
    then have k: "Suc i + k < length S" "s = S ! (Suc i + k)" by simp_all
    then have next_in: "Suc i < length S" by simp
    with change have ne: "snd (S ! Suc i) \<noteq> snd (S ! i)" by simp
    from sorted_wrt_nth_less [OF sorted _ next_in, of i] have "snd (S ! Suc i) \<le> snd (S ! i)"
      by simp
    with ne have less: "snd (S ! Suc i) < snd (S ! i)" by simp
    have "snd s \<le> snd (S ! Suc i)"
    proof (cases k)
      case 0
      with k show ?thesis by simp
    next
      case (Suc k')
      with k have "Suc i < Suc i + k" by simp
      from sorted_wrt_nth_less [OF sorted this k(1)] k(2) show ?thesis by simp
    qed
    with less show ?thesis by simp
  qed
  have "filter (\<lambda>s. snd (S ! i) \<le> snd s) S
          = filter (\<lambda>s. snd (S ! i) \<le> snd s) (take (Suc i) S)
            @ filter (\<lambda>s. snd (S ! i) \<le> snd s) (drop (Suc i) S)"
    by (simp only: filter_append [symmetric] append_take_drop_id)
  also have "filter (\<lambda>s. snd (S ! i) \<le> snd s) (take (Suc i) S) = take (Suc i) S"
    using upper by (simp only: filter_id_conv) blast
  also have "filter (\<lambda>s. snd (S ! i) \<le> snd s) (drop (Suc i) S) = []"
    using lower by (simp only: filter_empty_conv) blast
  finally show ?thesis by simp
qed

lemma threshold_idxs_boundary:
  assumes "i \<in> set (threshold_idxs y_score)"
  shows "i < length y_score" and "Suc i = length y_score \<or> y_score ! Suc i \<noteq> y_score ! i"
  using assms by (auto simp: threshold_idxs_def)

lemma tps_at_count:
  assumes i: "i \<in> set (threshold_idxs (map snd (rev (sort_key snd ps))))"
  shows "tps_at (rev (sort_key snd ps)) i
           = size {#s \<in># mset ps. snd s \<ge> map snd (rev (sort_key snd ps)) ! i \<and> fst s = 1#}"
proof -
  let ?S = "rev (sort_key snd ps)"
  from threshold_idxs_boundary [OF i]
  have len: "i < length ?S" and change: "Suc i = length ?S \<or> snd (?S ! Suc i) \<noteq> snd (?S ! i)"
    by (auto simp: nth_map simp del: length_rev length_sort)
  have yi: "map snd ?S ! i = snd (?S ! i)" using len by (simp only: nth_map)
  have "tps_at ?S i = length (filter (\<lambda>s. fst s = 1) (filter (\<lambda>s. snd (?S ! i) \<le> snd s) ?S))"
    by (simp only: tps_at_def take_at_score_change [OF sorted_samples_descending len change])
  also have "\<dots> = size (mset (filter (\<lambda>s. fst s = 1) (filter (\<lambda>s. snd (?S ! i) \<le> snd s) ?S)))"
    by (simp only: size_mset)
  also have "\<dots> = size {#s \<in># mset ps. snd (?S ! i) \<le> snd s \<and> fst s = 1#}"
    by (simp add: filter_filter_mset conj_commute)
  finally show ?thesis by (simp only: yi)
qed

lemma binary_clf_curve_cong:
  assumes "mset ps = mset ps'"
  shows "binary_clf_curve ps = binary_clf_curve ps'"
proof -
  let ?S = "rev (sort_key snd ps)" and ?S' = "rev (sort_key snd ps')"
  have scores: "map snd ?S = map snd ?S'" by (rule sorted_scores_cong [OF assms])
  have tps: "tps_at ?S i = tps_at ?S' i" if "i \<in> set (threshold_idxs (map snd ?S))" for i
  proof -
    from that have "i \<in> set (threshold_idxs (map snd ?S'))" by (simp only: scores)
    from tps_at_count [OF that] tps_at_count [OF this] show ?thesis
      by (simp only: scores assms)
  qed
  have "map (tps_at ?S) (threshold_idxs (map snd ?S))
          = map (tps_at ?S') (threshold_idxs (map snd ?S))"
    using tps by (intro map_cong refl)
  moreover have "map (\<lambda>i. 1 + i - tps_at ?S i) (threshold_idxs (map snd ?S))
          = map (\<lambda>i. 1 + i - tps_at ?S' i) (threshold_idxs (map snd ?S))"
    using tps by (intro map_cong refl) simp
  ultimately show ?thesis
    by (simp only: binary_clf_curve_def Let_def scores)
qed

lemma fold_pool_scores:
  "fold (\<lambda>(lang, data) total.
             (fst total @ true_labels data, snd total @ map snd (pred_probs data))) d acc
     = (fst acc @ concat (map (\<lambda>(lang, data). true_labels data) d),
        snd acc @ concat (map (\<lambda>(lang, data). map snd (pred_probs data)) d))"
  by (induction d arbitrary: acc) (auto simp: case_prod_beta)

lemma pool_scores_concat:
  "pool_scores d = (concat (map (\<lambda>(lang, data). true_labels data) d),
                    concat (map (\<lambda>(lang, data). map snd (pred_probs data)) d))"
  by (simp add: pool_scores_def fold_pool_scores)

lemma zip_concat_map:
  assumes "\<forall>x \<in> set xs. length (f x) = length (g x)"
  shows "zip (concat (map f xs)) (concat (map g xs)) = concat (map (\<lambda>x. zip (f x) (g x)) xs)"
  using assms by (induction xs) simp_all

lemma length_concat_map:
  assumes "\<forall>x \<in> set xs. length (f x) = length (g x)"
  shows "length (concat (map f xs)) = length (concat (map g xs))"
  using assms by (induction xs) simp_all

lemma mset_concat_map_cong:
  assumes "mset xs = mset ys"
  shows "mset (concat (map f xs)) = mset (concat (map f ys))"
proof -
  have "mset (concat (map f zs)) = sum_mset (image_mset (\<lambda>z. mset (f z)) (mset zs))" for zs
    by (induction zs) simp_all
  with assms show ?thesis by simp
qed

lemma labels_accepted_cong:
  assumes "set ys = set ys'"
  shows "labels_accepted ys = labels_accepted ys'"
proof -
  have "sort (remdups ys) = sort (remdups ys')"
    by (rule sorted_distinct_set_unique) (simp_all add: assms)
  then show ?thesis by (simp only: labels_accepted_def)
qed

lemma pooled_samples:
  assumes "\<forall>(lang, data) \<in> set d. length (true_labels data) = length (pred_probs data)"
  shows "length (fst (pool_scores d)) = length (snd (pool_scores d))"
    and "zip (fst (pool_scores d)) (snd (pool_scores d))
           = concat (map (\<lambda>(lang, data). zip (true_labels data) (map snd (pred_probs data))) d)"
proof -
  let ?f = "\<lambda>(lang :: string, data). true_labels data"
  let ?g = "\<lambda>(lang :: string, data). map snd (pred_probs data)"
  from assms have eq: "\<forall>x \<in> set d. length (?f x) = length (?g x)" by auto
  show "length (fst (pool_scores d)) = length (snd (pool_scores d))"
    using length_concat_map [OF eq] by (simp add: pool_scores_concat)
  have "zip (fst (pool_scores d)) (snd (pool_scores d))
          = concat (map (\<lambda>x. zip (?f x) (?g x)) d)"
    using zip_concat_map [OF eq] by (simp add: pool_scores_concat)
  also have "(\<lambda>x. zip (?f x) (?g x))
               = (\<lambda>(lang, data). zip (true_labels data) (map snd (pred_probs data)))"
    by auto
  finally show "zip (fst (pool_scores d)) (snd (pool_scores d))
           = concat (map (\<lambda>(lang, data). zip (true_labels data) (map snd (pred_probs data))) d)" .
qed

text \<open>
  Claim C8. The area under the precision-recall curve does not depend on the order in
  which the languages are pooled: for every permutation of the language entries the
  function computes the same figure, and so the same area. The entries are those of the
  data model: in every language the true labels and the probabilities have the same
  length.
\<close>

theorem pr_auc_pooling_order_invariant:
  assumes perm: "mset d' = mset d"
      and wf: "\<forall>(lang, data) \<in> set d. length (true_labels data) = length (pred_probs data)"
  shows "plot_combined_precision_recall_curve d' = plot_combined_precision_recall_curve d
       \<and> (\<forall>fig. plot_combined_precision_recall_curve d = Inr fig \<longrightarrow>
             (\<exists>fig'. plot_combined_precision_recall_curve d' = Inr fig' \<and> pr_auc fig' = pr_auc fig))"
proof -
  let ?ys = "fst (pool_scores d)" and ?ss = "snd (pool_scores d)"
  let ?ys' = "fst (pool_scores d')" and ?ss' = "snd (pool_scores d')"
  let ?Z = "\<lambda>(lang :: string, data). zip (true_labels data) (map snd (pred_probs data))"
  from perm have "set d' = set d" by (rule mset_eq_setD)
  with wf have wf': "\<forall>(lang, data) \<in> set d'. length (true_labels data) = length (pred_probs data)"
    by simp
  note P = pooled_samples [OF wf] and P' = pooled_samples [OF wf']
  have samples: "mset (zip ?ys' ?ss') = mset (zip ?ys ?ss)"
    by (simp only: P(2) P'(2) mset_concat_map_cong [OF perm])
  have "mset (map fst (zip ?ys' ?ss')) = mset (map fst (zip ?ys ?ss))"
    by (simp only: mset_map samples)
  then have "mset ?ys' = mset ?ys" using P(1) P'(1) by simp
  then have "set ?ys' = set ?ys" by (rule mset_eq_setD)
  then have acc: "labels_accepted ?ys' = labels_accepted ?ys" by (rule labels_accepted_cong)
  from \<open>set ?ys' = set ?ys\<close> have classes: "length (remdups ?ys') = length (remdups ?ys)"
    by (simp only: length_remdups_card_conv)
  have lens: "(length ?ys' \<noteq> length ?ss') = (length ?ys \<noteq> length ?ss)"
    using P(1) P'(1) by simp
  have curve: "binary_clf_curve (zip ?ys' ?ss') = binary_clf_curve (zip ?ys ?ss)"
    by (rule binary_clf_curve_cong [OF samples])
  have "precision_recall_curve ?ys' ?ss' = precision_recall_curve ?ys ?ss"
    by (simp only: precision_recall_curve_def acc lens curve classes)
  then have "plot_combined_precision_recall_curve d' = plot_combined_precision_recall_curve d"
    by (simp add: plot_combined_precision_recall_curve_def case_prod_beta)
  then show ?thesis by simp
qed

theorem pr_auc_pooling_order_invariant_witness:
  "plot_combined_precision_recall_curve
      [(''es'', \<lparr>true_labels = [1, 1, 0, 0], pred_labels = [1, 1, 0, 0],
                 pred_probs = [(0.1, 0.9), (0.1, 0.9), (0.8, 0.2), (0.8, 0.2)]\<rparr>),
       (''en'', \<lparr>true_labels = [1, 0, 1], pred_labels = [1, 1, 0],
                 pred_probs = [(0.1, 0.9), (0.1, 0.9), (0.8, 0.2)]\<rparr>)]
     = plot_combined_precision_recall_curve
      [(''en'', \<lparr>true_labels = [1, 0, 1], pred_labels = [1, 1, 0],
                 pred_probs = [(0.1, 0.9), (0.1, 0.9), (0.8, 0.2)]\<rparr>),
       (''es'', \<lparr>true_labels = [1, 1, 0, 0], pred_labels = [1, 1, 0, 0],
                 pred_probs = [(0.1, 0.9), (0.1, 0.9), (0.8, 0.2), (0.8, 0.2)]\<rparr>)]
   \<and> plot_combined_precision_recall_curve
      [(''es'', \<lparr>true_labels = [1, 1, 0, 0], pred_labels = [1, 1, 0, 0],
                 pred_probs = [(0.1, 0.9), (0.1, 0.9), (0.8, 0.2), (0.8, 0.2)]\<rparr>),
       (''en'', \<lparr>true_labels = [1, 0, 1], pred_labels = [1, 1, 0],
                 pred_probs = [(0.1, 0.9), (0.1, 0.9), (0.8, 0.2)]\<rparr>)]
     = Inr \<lparr>pr_recall = [1, 3 / 4, 0], pr_precision = [4 / 7, 3 / 4, 1], pr_auc = 23 / 28,
            optimal_idx = 0, optimal_threshold = 1 / 5\<rparr>"
proof -
  let ?en = "(''en'', \<lparr>true_labels = [1, 0, 1], pred_labels = [1, 1, 0],
                 pred_probs = [(0.1, 0.9), (0.1, 0.9), (0.8, 0.2)]\<rparr>)"
  let ?es = "(''es'', \<lparr>true_labels = [1, 1, 0, 0], pred_labels = [1, 1, 0, 0],
                 pred_probs = [(0.1, 0.9), (0.1, 0.9), (0.8, 0.2), (0.8, 0.2)]\<rparr>)"
  have perm: "mset [?es, ?en] = mset [?en, ?es]" by (simp add: add_mset_commute)
  have wf: "\<forall>(lang, data) \<in> set [?en, ?es]. length (true_labels data) = length (pred_probs data)"
    by simp
  have run: "plot_combined_precision_recall_curve [?en, ?es]
     = Inr \<lparr>pr_recall = [1, 3 / 4, 0], pr_precision = [4 / 7, 3 / 4, 1], pr_auc = 23 / 28,
            optimal_idx = 0, optimal_threshold = 1 / 5\<rparr>"
    by (simp add: plot_combined_precision_recall_curve_def pool_scores_def
          precision_recall_curve_def labels_accepted_def binary_clf_curve_def
          threshold_idxs_def tps_at_def auc_def np_diff_def np_trapz_def np_argmax_def)
  from pr_auc_pooling_order_invariant [OF perm wf]
  have "plot_combined_precision_recall_curve [?es, ?en]
          = plot_combined_precision_recall_curve [?en, ?es]" by (rule conjunct1)
  with run show ?thesis by simp
qed

text \<open>
  The alignment of the two sequences of every language is needed: when a language has
  more probabilities than labels and another one fewer, pooling in another order pairs
  the labels with other scores.
\<close>

lemma pooling_order_matters_without_alignment:
  "plot_combined_precision_recall_curve
      [(''a'', \<lparr>true_labels = [1], pred_labels = [], pred_probs = [(0.1, 0.9), (0.9, 0.1)]\<rparr>),
       (''b'', \<lparr>true_labels = [0, 0], pred_labels = [], pred_probs = [(0.5, 0.5)]\<rparr>)]
     = Inr \<lparr>pr_recall = [1, 1, 1, 0], pr_precision = [1 / 3, 1 / 2, 1, 1], pr_auc = 1,
            optimal_idx = 2, optimal_threshold = 9 / 10\<rparr>
   \<and> plot_combined_precision_recall_curve
      [(''b'', \<lparr>true_labels = [0, 0], pred_labels = [], pred_probs = [(0.5, 0.5)]\<rparr>),
       (''a'', \<lparr>true_labels = [1], pred_labels = [], pred_probs = [(0.1, 0.9), (0.9, 0.1)]\<rparr>)]
     = Inr \<lparr>pr_recall = [1, 0, 0, 0], pr_precision = [1 / 3, 0, 0, 1], pr_auc = 1 / 6,
            optimal_idx = 0, optimal_threshold = 1 / 10\<rparr>"
  by (simp add: plot_combined_precision_recall_curve_def pool_scores_def
        precision_recall_curve_def labels_accepted_def binary_clf_curve_def
        threshold_idxs_def tps_at_def auc_def np_diff_def np_trapz_def np_argmax_def)


section \<open>What a call of the Confusion Matrix Reporter changes\<close>

text \<open>
  The pooling loop writes to the two new lists of \<^verbatim>\<open>total_labels\<close> only, and the deep
  copy makes new objects only: every step keeps the objects that were in the store
  before the call.
\<close>

lemma list_extend_frame:
  assumes "list_extend target source s = (r, s')"
  shows "length s' = length s" and "a \<noteq> target \<Longrightarrow> s' ! a = s ! a"
  using assms by (auto simp: list_extend_def split: sum.splits)

lemma extend_key_frame:
  assumes run: "extend_key total_labels labels k s = (r, s')"
      and total: "lookup_obj s total_labels = Inr (PyDict [(TRUE_LABELS, n), (PRED_LABELS, Suc n)])"
  shows "length s' = length s" and "a \<noteq> n \<Longrightarrow> a \<noteq> Suc n \<Longrightarrow> s' ! a = s ! a"
proof -
  have target: "t = n \<or> t = Suc n" if "getitem s total_labels k = Inr t" for t
    using that total by (auto simp: getitem_def split: if_splits option.splits)
  show "length s' = length s"
    using run list_extend_frame(1)
    by (auto simp: extend_key_def split: sum.splits)
  show "s' ! a = s ! a" if "a \<noteq> n" "a \<noteq> Suc n"
  proof (cases "getitem s total_labels k")
    case (Inl e)
    with run show ?thesis by (simp add: extend_key_def)
  next
    case (Inr t)
    with target that have "a \<noteq> t" by auto
    with run Inr list_extend_frame(2) [of t _ s r s' a] show ?thesis
      by (auto simp: extend_key_def split: sum.splits)
  qed
qed

lemma pool_into_frame:
  assumes "pool_into kvs total_labels s = (r, s')"
      and "lookup_obj s total_labels = Inr (PyDict [(TRUE_LABELS, n), (PRED_LABELS, Suc n)])"
      and "total_labels \<noteq> n" and "total_labels \<noteq> Suc n"
  shows "length s' = length s \<and> (\<forall>a. a \<noteq> n \<longrightarrow> a \<noteq> Suc n \<longrightarrow> s' ! a = s ! a)"
  using assms
proof (induction kvs arbitrary: s)
  case Nil
  then show ?case by simp
next
  case (Cons kv kvs)
  obtain lang labels where kv: "kv = (lang, labels)" by (cases kv)
  obtain r1 s1 where e1: "extend_key total_labels labels TRUE_LABELS s = (r1, s1)"
    by (cases "extend_key total_labels labels TRUE_LABELS s")
  note f1 = extend_key_frame [OF e1 Cons.prems(2)]
  show ?case
  proof (cases r1)
    case (Inl e)
    with Cons.prems(1) kv e1 have "s' = s1" by simp
    with f1 show ?thesis by simp
  next
    case ok1: (Inr u)
    have total1: "lookup_obj s1 total_labels
                    = Inr (PyDict [(TRUE_LABELS, n), (PRED_LABELS, Suc n)])"
      using Cons.prems(2,3,4) f1(1) f1(2) [of total_labels]
      by (auto simp: lookup_obj_def split: if_splits)
    obtain r2 s2 where e2: "extend_key total_labels labels PRED_LABELS s1 = (r2, s2)"
      by (cases "extend_key total_labels labels PRED_LABELS s1")
    note f2 = extend_key_frame [OF e2 total1]
    show ?thesis
    proof (cases r2)
      case (Inl e)
      with Cons.prems(1) kv e1 ok1 e2 have "s' = s2" by simp
      with f1 f2 show ?thesis by simp
    next
      case ok2: (Inr u2)
      have total2: "lookup_obj s2 total_labels
                      = Inr (PyDict [(TRUE_LABELS, n), (PRED_LABELS, Suc n)])"
        using total1 Cons.prems(3,4) f2(1) f2(2) [of total_labels]
        by (auto simp: lookup_obj_def split: if_splits)
      from Cons.prems(1) kv e1 ok1 e2 ok2 have "pool_into kvs total_labels s2 = (r, s')"
        by simp
      from Cons.IH [OF this total2 Cons.prems(3,4)] f1 f2 show ?thesis by simp
    qed
  qed
qed

lemma deepcopy_extends:
  "deepcopy fuel a st = (r, st') \<Longrightarrow>
     length (snd st) \<le> length (snd st') \<and> take (length (snd st)) (snd st') = snd st"
  "deepcopy_items fuel kvs st = (rs, st') \<Longrightarrow>
     length (snd st) \<le> length (snd st') \<and> take (length (snd st)) (snd st') = snd st"
proof (induction fuel a st and fuel kvs st arbitrary: r st' and rs st'
       rule: deepcopy_deepcopy_items.induct)
  case (1 a st)
  then show ?case by simp
next
  case (2 fuel a st)
  show ?case
  proof (cases "map_of (fst st) a")
    case (Some b)
    with "2.prems" show ?thesis by simp
  next
    case None
    show ?thesis
    proof (cases "lookup_obj (snd st) a")
      case (Inl e)
      with None "2.prems" show ?thesis by simp
    next
      case (Inr obj)
      show ?thesis
      proof (cases obj)
        case (PyInts xs)
        with None Inr "2.prems" show ?thesis by auto
      next
        case (PyProbs ps)
        with None Inr "2.prems" show ?thesis by auto
      next
        case (PyDict kvs)
        let ?st0 = "((a, length (snd st)) # fst st, snd st @ [PyDict []])"
        obtain rs st1 where items: "deepcopy_items fuel kvs ?st0 = (rs, st1)"
          by (cases "deepcopy_items fuel kvs ?st0")
        from "2.IH" [OF None Inr PyDict refl items]
        have ext: "length (snd ?st0) \<le> length (snd st1)"
          "take (length (snd ?st0)) (snd st1) = snd ?st0" by simp_all
        then have len: "length (snd st) < length (snd st1)" by simp
        from ext(2) have "take (length (snd st)) (take (Suc (length (snd st))) (snd st1))
                            = take (length (snd st)) (snd st @ [PyDict []])" by simp
        then have pre: "take (length (snd st)) (snd st1) = snd st" by (simp add: min_def)
        show ?thesis
        proof (cases rs)
          case (Inl e)
          with None Inr PyDict items "2.prems" have "st' = st1" by (simp add: Let_def)
          with len pre show ?thesis by simp
        next
          case (Inr kvs1)
          with None \<open>lookup_obj (snd st) a = Inr obj\<close> PyDict items "2.prems"
          have "snd st' = (snd st1)[length (snd st) := PyDict kvs1]" by (auto simp: Let_def)
          with len pre show ?thesis by simp
        qed
      qed
    qed
  qed
next
  case (3 fuel st)
  then show ?case by simp
next
  case (4 fuel k v rest st)
  obtain r1 st1 where first: "deepcopy fuel v st = (r1, st1)" by (cases "deepcopy fuel v st")
  from "4.IH"(1) [OF first]
  have e1: "length (snd st) \<le> length (snd st1)" "take (length (snd st)) (snd st1) = snd st"
    by simp_all
  show ?case
  proof (cases r1)
    case (Inl e)
    with first "4.prems" have "st' = st1" by simp
    with e1 show ?thesis by simp
  next
    case (Inr v1)
    obtain r2 st2 where more: "deepcopy_items fuel rest st1 = (r2, st2)"
      by (cases "deepcopy_items fuel rest st1")
    from "4.IH"(2) [OF first [symmetric] Inr more]
    have e2: "length (snd st1) \<le> length (snd st2)" "take (length (snd st1)) (snd st2) = snd st1"
      by simp_all
    from first Inr more "4.prems" have "st' = st2" by (auto split: sum.splits)
    moreover from e1 e2 have "take (length (snd st)) (snd st2) = snd st"
      by (metis min.absorb1 take_take)
    ultimately show ?thesis using e1 e2 by simp
  qed
qed

lemma show_confusion_matrix_store_extends:
  assumes "show_confusion_matrix_store d s = (res, s')"
  shows "length s \<le> length s' \<and> take (length s) s' = s"
proof -
  let ?n = "length s"
  let ?s1 = "s @ [PyInts [], PyInts [], PyDict [(TRUE_LABELS, ?n), (PRED_LABELS, Suc ?n)]]"
  let ?total = "Suc (Suc ?n)"
  have s1: "length s \<le> length ?s1 \<and> take (length s) ?s1 = s" by simp
  show ?thesis
  proof (cases "dict_items ?s1 d")
    case (Inl e)
    with assms have "s' = ?s1" by (simp add: show_confusion_matrix_store_def Let_def)
    with s1 show ?thesis by simp
  next
    case (Inr kvs)
    obtain r2 s2 where pool: "pool_into kvs ?total ?s1 = (r2, s2)"
      by (cases "pool_into kvs ?total ?s1")
    have "lookup_obj ?s1 ?total = Inr (PyDict [(TRUE_LABELS, ?n), (PRED_LABELS, Suc ?n)])"
      by (simp add: lookup_obj_def nth_append)
    from pool_into_frame [OF pool this]
    have len2: "length s2 = length ?s1"
      and same2: "\<forall>a. a \<noteq> ?n \<longrightarrow> a \<noteq> Suc ?n \<longrightarrow> s2 ! a = ?s1 ! a" by simp_all
    have "take ?n s2 = take ?n ?s1"
      using len2 same2 by (intro nth_take_lemma) auto
    then have s2: "length s \<le> length s2 \<and> take (length s) s2 = s" using len2 by simp
    have after: "length s \<le> length s' \<and> take (length s) s' = s"
      if "length s2 \<le> length s'" "take (length s2) s' = s2" for s'
    proof -
      from that s2 have "take (length s) s' = s" by (metis min.absorb1 take_take)
      with that s2 show ?thesis by simp
    qed
    show ?thesis
    proof (cases r2)
      case (Inl e)
      with assms Inr pool have "s' = s2" by (simp add: show_confusion_matrix_store_def Let_def)
      with s2 show ?thesis by simp
    next
      case ok: (Inr u)
      show ?thesis
      proof (cases "read_labels s2 ?total")
        case (Inl e)
        with assms Inr pool ok have "s' = s2"
          by (simp add: show_confusion_matrix_store_def Let_def)
        with s2 show ?thesis by simp
      next
        case pooled: (Inr pooled)
        show ?thesis
        proof (cases "length (true_labels pooled) \<noteq> length (pred_labels pooled)")
          case True
          with assms Inr pool ok pooled have "s' = s2"
            by (simp add: show_confusion_matrix_store_def Let_def)
          with s2 show ?thesis by simp
        next
          case False
          obtain r3 st3 where copy: "deepcopy (length s2) d ([], s2) = (r3, st3)"
            by (cases "deepcopy (length s2) d ([], s2)")
          from deepcopy_extends(1) [OF copy]
          have s3: "length s2 \<le> length (snd st3)" "take (length s2) (snd st3) = s2"
            by simp_all
          have s3': "length s2 \<le> length (snd st3 @ [obj])
                     \<and> take (length s2) (snd st3 @ [obj]) = s2" for obj
            using s3 by simp
          from assms Inr pool ok pooled False copy
          have "s' = snd st3 \<or> (\<exists>obj. s' = snd st3 @ [obj])"
            by (auto simp: show_confusion_matrix_store_def Let_def len2
                     split: sum.splits if_splits)
          with s3 s3' after show ?thesis by blast
        qed
      qed
    qed
  qed
qed

lemma lookup_obj_extends:
  assumes "length s \<le> length s'" "take (length s) s' = s" "lookup_obj s a = Inr obj"
  shows "lookup_obj s' a = Inr obj"
proof -
  from assms(3) have a: "a < length s" and obj: "obj = s ! a"
    by (auto simp: lookup_obj_def split: if_splits)
  from a have "take (length s) s' ! a = s' ! a" by simp
  with assms(2) obj have "s' ! a = obj" by simp
  with a assms(1) show ?thesis by (simp add: lookup_obj_def)
qed

lemma read_labels_extends:
  assumes "length s \<le> length s'" "take (length s) s' = s" "read_labels s a = Inr entry"
  shows "read_labels s' a = Inr entry"
proof -
  note keep = lookup_obj_extends [OF assms(1,2)]
  have item: "getitem s' b k = Inr v" if "getitem s b k = Inr v" for b k v
  proof -
    from that obtain obj where "lookup_obj s b = Inr obj"
      by (auto simp: getitem_def split: sum.splits)
    with that keep [OF this] show ?thesis by (simp add: getitem_def)
  qed
  have ints: "get_ints s' b = Inr xs" if "get_ints s b = Inr xs" for b xs
  proof -
    from that obtain obj where "lookup_obj s b = Inr obj"
      by (auto simp: get_ints_def split: sum.splits)
    with that keep [OF this] show ?thesis by (simp add: get_ints_def)
  qed
  from assms(3) obtain t p y_true y_pred where
    "getitem s a TRUE_LABELS = Inr t" "getitem s a PRED_LABELS = Inr p"
    "get_ints s t = Inr y_true" "get_ints s p = Inr y_pred"
    "entry = \<lparr>true_labels = y_true, pred_labels = y_pred, pred_probs = []\<rparr>"
    by (auto simp: read_labels_def split: sum.splits)
  then show ?thesis using item ints by (simp add: read_labels_def)
qed

lemma read_entries_extends:
  assumes "length s \<le> length s'" "take (length s) s' = s" "read_entries s kvs = Inr entries"
  shows "read_entries s' kvs = Inr entries"
  using assms(3)
proof (induction kvs arbitrary: entries)
  case Nil
  then show ?case by simp
next
  case (Cons kv kvs)
  obtain lang a where kv: "kv = (lang, a)" by (cases kv)
  from Cons.prems kv obtain entry rest where
    e: "read_labels s a = Inr entry" and r: "read_entries s kvs = Inr rest"
    and out: "entries = (lang, entry) # rest"
    by (auto split: sum.splits)
  from read_labels_extends [OF assms(1,2) e] Cons.IH [OF r] kv out show ?case by simp
qed

lemma read_dict_extends:
  assumes "length s \<le> length s'" "take (length s) s' = s" "read_dict s d = Inr input"
  shows "read_dict s' d = Inr input"
proof -
  from assms(3) obtain kvs where kvs: "dict_items s d = Inr kvs"
    and entries: "read_entries s kvs = Inr input"
    by (auto simp: read_dict_def split: sum.splits)
  from kvs obtain obj where obj: "lookup_obj s d = Inr obj"
    by (auto simp: dict_items_def split: sum.splits)
  from kvs obj lookup_obj_extends [OF assms(1,2) obj] have "dict_items s' d = Inr kvs"
    by (simp add: dict_items_def)
  with read_entries_extends [OF assms(1,2) entries] show ?thesis by (simp add: read_dict_def)
qed

text \<open>
  Claim C10. \<^verbatim>\<open>show_confusion_matrix\<close> leaves its input mapping unchanged: whatever the
  call returns or raises, every object that existed before the call is the same after it,
  so the caller's dictionary has the same language keys and the same true and predicted
  label sequences as before. The pooled entry \<^verbatim>\<open>"all languages"\<close> goes into a new
  dictionary, made from the deep copy, and no entry of a language is changed in place.
\<close>

theorem show_confusion_matrix_leaves_input_unchanged:
  assumes "show_confusion_matrix_store d s = (res, s')"
  shows "length s \<le> length s'
       \<and> (\<forall>a < length s. s' ! a = s ! a)
       \<and> (\<forall>input. read_dict s d = Inr input \<longrightarrow> read_dict s' d = Inr input)"
proof -
  from show_confusion_matrix_store_extends [OF assms]
  have len: "length s \<le> length s'" and pre: "take (length s) s' = s" by simp_all
  have "s' ! a = s ! a" if "a < length s" for a
  proof -
    from that have "take (length s) s' ! a = s' ! a" by simp
    with pre show ?thesis by simp
  qed
  moreover have "read_dict s' d = Inr input" if "read_dict s d = Inr input" for input
    using read_dict_extends [OF len pre that] .
  ultimately show ?thesis using len by blast
qed

theorem show_confusion_matrix_leaves_input_unchanged_witness:
  "fst (show_confusion_matrix_store 9
      [PyInts [0, 1], PyInts [0, 1], PyDict [(''true_labels'', 0), (''pred_labels'', 1)],
       PyInts [0, 1], PyInts [1, 1], PyDict [(''true_labels'', 3), (''pred_labels'', 4)],
       PyInts [1, 0], PyInts [1, 0], PyDict [(''true_labels'', 6), (''pred_labels'', 7)],
       PyDict [(''en'', 2), (''es'', 5), (''fr'', 8)]])
     = Inr [\<lparr>cm_title = ''en'', cm_percent = [[100, 0], [0, 100]], cm_accuracy = Some 100\<rparr>,
            \<lparr>cm_title = ''es'', cm_percent = [[0, 100], [0, 100]], cm_accuracy = Some 50\<rparr>,
            \<lparr>cm_title = ''fr'', cm_percent = [[100, 0], [0, 100]], cm_accuracy = Some 100\<rparr>,
            \<lparr>cm_title = ''all languages'', cm_percent = [[200 / 3, 100 / 3], [0, 100]],
              cm_accuracy = Some (250 / 3)\<rparr>]
   \<and> read_dict (snd (show_confusion_matrix_store 9
      [PyInts [0, 1], PyInts [0, 1], PyDict [(''true_labels'', 0), (''pred_labels'', 1)],
       PyInts [0, 1], PyInts [1, 1], PyDict [(''true_labels'', 3), (''pred_labels'', 4)],
       PyInts [1, 0], PyInts [1, 0], PyDict [(''true_labels'', 6), (''pred_labels'', 7)],
       PyDict [(''en'', 2), (''es'', 5), (''fr'', 8)]])) 9
     = Inr [(''en'', \<lparr>true_labels = [0, 1], pred_labels = [0, 1], pred_probs = []\<rparr>),
            (''es'', \<lparr>true_labels = [0, 1], pred_labels = [1, 1], pred_probs = []\<rparr>),
            (''fr'', \<lparr>true_labels = [1, 0], pred_labels = [1, 0], pred_probs = []\<rparr>)]"
proof -
  let ?s = "[PyInts [0, 1], PyInts [0, 1], PyDict [(''true_labels'', 0), (''pred_labels'', 1)],
       PyInts [0, 1], PyInts [1, 1], PyDict [(''true_labels'', 3), (''pred_labels'', 4)],
       PyInts [1, 0], PyInts [1, 0], PyDict [(''true_labels'', 6), (''pred_labels'', 7)],
       PyDict [(''en'', 2), (''es'', 5), (''fr'', 8)]]"
  let ?input = "[(''en'', \<lparr>true_labels = [0, 1], pred_labels = [0, 1], pred_probs = []\<rparr>),
            (''es'', \<lparr>true_labels = [0, 1], pred_labels = [1, 1], pred_probs = []\<rparr>),
            (''fr'', \<lparr>true_labels = [1, 0], pred_labels = [1, 0], pred_probs = []\<rparr>)]"
  have run: "show_confusion_matrix_store 9 ?s
               = (fst (show_confusion_matrix_store 9 ?s), snd (show_confusion_matrix_store 9 ?s))"
    by simp
  have before: "read_dict ?s 9 = Inr ?input"
    by (simp add: read_dict_def dict_items_def lookup_obj_def read_labels_def getitem_def
          get_ints_def TRUE_LABELS_def PRED_LABELS_def)
  from show_confusion_matrix_leaves_input_unchanged [OF run] before
  have after: "read_dict (snd (show_confusion_matrix_store 9 ?s)) 9 = Inr ?input" by blast
  have "fst (show_confusion_matrix_store 9 ?s)
     = Inr [\<lparr>cm_title = ''en'', cm_percent = [[100, 0], [0, 100]], cm_accuracy = Some 100\<rparr>,
            \<lparr>cm_title = ''es'', cm_percent = [[0, 100], [0, 100]], cm_accuracy = Some 50\<rparr>,
            \<lparr>cm_title = ''fr'', cm_percent = [[100, 0], [0, 100]], cm_accuracy = Some 100\<rparr>,
            \<lparr>cm_title = ''all languages'', cm_percent = [[200 / 3, 100 / 3], [0, 100]],
              cm_accuracy = Some (250 / 3)\<rparr>]"
    by (simp add: show_confusion_matrix_store_def dict_items_def lookup_obj_def getitem_def
          get_ints_def list_extend_def extend_key_def read_labels_def TRUE_LABELS_def
          PRED_LABELS_def confusion_matrix_def draw_panel_def accuracy_def)
  then show ?thesis using after by (rule conjI)
qed

text \<open>
  On that store the function computes the figure that the model on values computes for the
  dictionary the caller sees.
\<close>

lemma store_and_value_models_agree_on_example:
  "fst (show_confusion_matrix_store 9
      [PyInts [0, 1], PyInts [0, 1], PyDict [(''true_labels'', 0), (''pred_labels'', 1)],
       PyInts [0, 1], PyInts [1, 1], PyDict [(''true_labels'', 3), (''pred_labels'', 4)],
       PyInts [1, 0], PyInts [1, 0], PyDict [(''true_labels'', 6), (''pred_labels'', 7)],
       PyDict [(''en'', 2), (''es'', 5), (''fr'', 8)]])
     = show_confusion_matrix
         [(''en'', \<lparr>true_labels = [0, 1], pred_labels = [0, 1], pred_probs = []\<rparr>),
          (''es'', \<lparr>true_labels = [0, 1], pred_labels = [1, 1], pred_probs = []\<rparr>),
          (''fr'', \<lparr>true_labels = [1, 0], pred_labels = [1, 0], pred_probs = []\<rparr>)]"
  by (simp add: show_confusion_matrix_store_def dict_items_def lookup_obj_def getitem_def
        get_ints_def list_extend_def extend_key_def read_labels_def TRUE_LABELS_def
        PRED_LABELS_def confusion_matrix_def draw_panel_def accuracy_def
        show_confusion_matrix_def pool_labels_def)

end
